theory Spec2Isabelle
  imports Main "HOL-Library.Word" "HOL-Library.AList"
begin

section \<open>JavaScript strings\<close>

text \<open>
  A JavaScript string is a sequence of UTF-16 code units; \<open>length\<close>, \<open>substr\<close> and a
  regular expression without the \<open>u\<close> flag all work on code units. The string literals
  of the source are ASCII and are written with \<open>ascii\<close>.
\<close>

type_synonym code_unit = "16 word"
type_synonym js_string = "code_unit list"

definition ascii :: "string \<Rightarrow> js_string" where
  "ascii s = map of_char s"

definition COMMA :: code_unit where
  "COMMA = 44"

definition SEMICOLON :: code_unit where
  "SEMICOLON = 59"

definition NEWLINE :: code_unit where
  "NEWLINE = 10"

text \<open>\<open>!v\<close> for a value of type \<open>string | null\<close>: null and the empty string are falsy.\<close>

fun truthy :: "js_string option \<Rightarrow> bool" where
  "truthy None = False"
| "truthy (Some s) = (s \<noteq> [])"

text \<open>\<open>a || b\<close> on values of type \<open>string | null\<close>.\<close>

definition js_or :: "js_string option \<Rightarrow> js_string option \<Rightarrow> js_string option" where
  "js_or a b = (if truthy a then a else b)"

text \<open>\<open>Array.prototype.join\<close> on an array of strings.\<close>

fun js_join :: "js_string \<Rightarrow> js_string list \<Rightarrow> js_string" where
  "js_join sep [] = []"
| "js_join sep [x] = x"
| "js_join sep (x # y # ys) = x @ sep @ js_join sep (y # ys)"

section \<open>Static helpers of class Notion (notion.ts, lines 42--89)\<close>

definition TEXT_CONTENT_MAX_LENGTH :: nat where
  "TEXT_CONTENT_MAX_LENGTH = 2000"

text \<open>\<open>text.substr(0, TEXT_CONTENT_MAX_LENGTH)\<close>\<close>

definition truncateTextToMaxLength :: "js_string \<Rightarrow> js_string" where
  "truncateTextToMaxLength text = take TEXT_CONTENT_MAX_LENGTH text"

text \<open>
  \<open>text.replace(/,/g, ';')\<close>: the global replace scans the string from the left and
  substitutes every match of the one-unit pattern.
\<close>

fun sanitizeSelectOption :: "js_string \<Rightarrow> js_string" where
  "sanitizeSelectOption [] = []"
| "sanitizeSelectOption (c # cs) =
     (if c = COMMA then SEMICOLON # sanitizeSelectOption cs
      else c # sanitizeSelectOption cs)"

type_synonym rich_text = "js_string list"

text \<open>
  \<open>buildRichText\<close>: no text object for null or the empty string, otherwise one text
  object holding the truncated content.
\<close>

definition buildRichText :: "js_string option \<Rightarrow> rich_text" where
  "buildRichText content =
     (if \<not> truthy content then [] else [truncateTextToMaxLength (the content)])"

section \<open>The property mapper (notion.ts, lines 134--256)\<close>

text \<open>
  What the getters of a \<open>NoteroItem\<close> return. The class lives in \<open>notero-item.ts\<close>;
  \<open>notion.ts\<close> only reads these values, with the types its calls require
  (\<open>string | null\<close> for the texts, arrays of strings for the lists).
\<close>

record notero_item =
  getAbstract :: "js_string option"
  getAuthors :: "js_string list"
  getDOI :: "js_string option"
  getEditors :: "js_string list"
  getFilePath :: "js_string option"
  getFullCitation :: "js_string option"
  getInTextCitation :: "js_string option"
  getItemType :: js_string
  getTags :: "js_string list"
  getTitle :: "js_string option"
  getURL :: "js_string option"
  getYear :: "int option"
  getZoteroURI :: "js_string option"
  getNotionPageID :: "js_string option"

text \<open>A property type is the tag string of the Notion API (\<open>'rich_text'\<close>, \<open>'url'\<close>, ...).\<close>

type_synonym property_type = js_string

text \<open>\<open>GetDatabaseResponse['properties']\<close>: property name to the type of the property.\<close>

type_synonym database_properties = "js_string \<rightharpoonup> property_type"

text \<open>\<open>PropertyRequest\<close>: the value sent for a property, by kind.\<close>

datatype property_request =
    RichText rich_text
  | Url "js_string option"
  | Select js_string
  | MultiSelect "js_string list"
  | Number "int option"

text \<open>
  An entry of the page properties: the initial \<open>{ title: [...] }\<close>, or the
  \<open>{ type, [type]: request }\<close> that the loop assigns.
\<close>

datatype database_page_property =
    TitleProperty rich_text
  | TypedProperty property_type property_request

text \<open>
  The page properties are an object: assigning to a key that is present replaces its
  value in place, a new key is appended (\<open>AList.update\<close>).
\<close>

type_synonym database_page_properties = "(js_string \<times> database_page_property) list"

type_synonym definition_entry =
  "js_string \<times> property_type \<times> (notero_item \<Rightarrow> property_request)"

definition propertyDefinitions :: "definition_entry list" where
  "propertyDefinitions =
    [(ascii ''Abstract'', ascii ''rich_text'',
        \<lambda>item. RichText (buildRichText (getAbstract item))),
     (ascii ''Authors'', ascii ''rich_text'',
        \<lambda>item. RichText (buildRichText (Some (js_join [NEWLINE] (getAuthors item))))),
     (ascii ''DOI'', ascii ''url'', \<lambda>item. Url (getDOI item)),
     (ascii ''Editors'', ascii ''rich_text'',
        \<lambda>item. RichText (buildRichText (Some (js_join [NEWLINE] (getEditors item))))),
     (ascii ''File Path'', ascii ''rich_text'',
        \<lambda>item. RichText (buildRichText (getFilePath item))),
     (ascii ''Full Citation'', ascii ''rich_text'',
        \<lambda>item. RichText (buildRichText (js_or (getFullCitation item) (getTitle item)))),
     (ascii ''In-Text Citation'', ascii ''rich_text'',
        \<lambda>item. RichText (buildRichText (js_or (getInTextCitation item) (getTitle item)))),
     (ascii ''Item Type'', ascii ''select'', \<lambda>item. Select (getItemType item)),
     (ascii ''Tags'', ascii ''multi_select'',
        \<lambda>item. MultiSelect (map sanitizeSelectOption (getTags item))),
     (ascii ''Title'', ascii ''rich_text'',
        \<lambda>item. RichText (buildRichText (getTitle item))),
     (ascii ''URL'', ascii ''url'', \<lambda>item. Url (getURL item)),
     (ascii ''Year'', ascii ''number'', \<lambda>item. Number (getYear item)),
     (ascii ''Zotero URI'', ascii ''url'', \<lambda>item. Url (getZoteroURI item)),
     (ascii ''Zotero URI'', ascii ''url'', \<lambda>item. Url (getZoteroURI item))]"

text \<open>\<open>databaseProperties[name]?.type === type\<close>\<close>

fun databaseHasProperty :: "database_properties \<Rightarrow> definition_entry \<Rightarrow> bool" where
  "databaseHasProperty databaseProperties (name, type, buildRequest) =
     (case databaseProperties name of None \<Rightarrow> False | Some t \<Rightarrow> t = type)"

text \<open>The page title: \<open>(await item.getInTextCitation()) || item.getTitle()\<close>.\<close>

definition titleContent :: "notero_item \<Rightarrow> js_string option" where
  "titleContent item = js_or (getInTextCitation item) (getTitle item)"

definition initialItemProperties :: "notero_item \<Rightarrow> database_page_properties" where
  "initialItemProperties item =
     [(ascii ''title'', TitleProperty (buildRichText (titleContent item)))]"

text \<open>The loop over \<open>validPropertyDefinitions\<close>.\<close>

fun assignProperties ::
  "notero_item \<Rightarrow> definition_entry list \<Rightarrow> database_page_properties \<Rightarrow>
   database_page_properties" where
  "assignProperties item [] itemProperties = itemProperties"
| "assignProperties item ((name, type, buildRequest) # defs) itemProperties =
     assignProperties item defs
       (AList.update name (TypedProperty type (buildRequest item)) itemProperties)"

text \<open>The body of \<open>buildItemProperties\<close> after the schema has arrived.\<close>

definition mapItemProperties ::
  "database_properties \<Rightarrow> notero_item \<Rightarrow> database_page_properties" where
  "mapItemProperties databaseProperties item =
     assignProperties item
       (filter (databaseHasProperty databaseProperties) propertyDefinitions)
       (initialItemProperties item)"

section \<open>The Notion client: schema cache and upsert (notion.ts, lines 91--132)\<close>

text \<open>
  What a rejected request throws: an \<open>APIResponseError\<close> with its code, or any other
  value (here an \<open>Error\<close> with its message).
\<close>

datatype js_error =
    APIResponseError js_string
  | Error js_string

definition ObjectNotFound :: js_string where
  "ObjectNotFound = ascii ''object_not_found''"

fun isAPIResponseError :: "js_error \<Rightarrow> bool" where
  "isAPIResponseError (APIResponseError c) = True"
| "isAPIResponseError (Error m) = False"

fun error_code :: "js_error \<Rightarrow> js_string option" where
  "error_code (APIResponseError c) = Some c"
| "error_code (Error m) = None"

text \<open>The requests of the client, with their arguments.\<close>

datatype api_call =
    Retrieve js_string
  | Update js_string database_page_properties
  | Create js_string database_page_properties

record page_response =
  response_id :: js_string
  response_url :: "js_string option"

text \<open>
  The remote service: what it answers to a request, given the requests it has received
  so far. Any deterministic service is such a function.
\<close>

record remote =
  databases_retrieve :: "api_call list \<Rightarrow> js_string \<Rightarrow> js_error + database_properties"
  pages_update ::
    "api_call list \<Rightarrow> js_string \<Rightarrow> database_page_properties \<Rightarrow> js_error + page_response"
  pages_create ::
    "api_call list \<Rightarrow> js_string \<Rightarrow> database_page_properties \<Rightarrow> js_error + page_response"

text \<open>
  A \<open>Notion\<close> object: its database, its \<open>_databaseProperties\<close> field, and the requests
  sent to the service so far (a log the model keeps).
\<close>

record notion =
  databaseID :: js_string
  databaseProperties :: "database_properties option"
  sent :: "api_call list"

definition new_Notion :: "js_string \<Rightarrow> api_call list \<Rightarrow> notion" where
  "new_Notion database_id requests =
     \<lparr>databaseID = database_id, databaseProperties = None, sent = requests\<rparr>"

text \<open>
  \<open>getDatabaseProperties\<close> has one suspension point, the \<open>await\<close> of the retrieval.
  \<open>getDatabaseProperties_call\<close> is the part that runs when the function is called:
  with the field set it returns at once, otherwise it sends the request and suspends.
  \<open>getDatabaseProperties_resume\<close> is the part that runs when the request has settled.
\<close>

datatype pending_schema =
    Returned database_properties
  | Awaiting "js_error + database_properties"

definition getDatabaseProperties_call :: "remote \<Rightarrow> notion \<Rightarrow> pending_schema \<times> notion" where
  "getDatabaseProperties_call R n =
     (case databaseProperties n of
        Some db \<Rightarrow> (Returned db, n)
      | None \<Rightarrow>
          (Awaiting (databases_retrieve R (sent n) (databaseID n)),
           n\<lparr>sent := sent n @ [Retrieve (databaseID n)]\<rparr>))"

fun getDatabaseProperties_resume ::
  "pending_schema \<Rightarrow> notion \<Rightarrow> (js_error + database_properties) \<times> notion" where
  "getDatabaseProperties_resume (Returned db) n = (Inr db, n)"
| "getDatabaseProperties_resume (Awaiting (Inl e)) n = (Inl e, n)"
| "getDatabaseProperties_resume (Awaiting (Inr db)) n =
     (Inr db, n\<lparr>databaseProperties := Some db\<rparr>)"

text \<open>A call that is awaited before anything else runs.\<close>

definition getDatabaseProperties ::
  "remote \<Rightarrow> notion \<Rightarrow> (js_error + database_properties) \<times> notion" where
  "getDatabaseProperties R n =
     (case getDatabaseProperties_call R n of (p, n') \<Rightarrow> getDatabaseProperties_resume p n')"

definition buildItemProperties ::
  "remote \<Rightarrow> notero_item \<Rightarrow> notion \<Rightarrow> (js_error + database_page_properties) \<times> notion" where
  "buildItemProperties R item n =
     (case getDatabaseProperties R n of
        (Inl e, n') \<Rightarrow> (Inl e, n')
      | (Inr db, n') \<Rightarrow> (Inr (mapItemProperties db item), n'))"

definition pages_create_call ::
  "remote \<Rightarrow> database_page_properties \<Rightarrow> notion \<Rightarrow> (js_error + page_response) \<times> notion" where
  "pages_create_call R properties n =
     (pages_create R (sent n) (databaseID n) properties,
      n\<lparr>sent := sent n @ [Create (databaseID n) properties]\<rparr>)"

definition pages_update_call ::
  "remote \<Rightarrow> js_string \<Rightarrow> database_page_properties \<Rightarrow> notion \<Rightarrow>
   (js_error + page_response) \<times> notion" where
  "pages_update_call R pageID properties n =
     (pages_update R (sent n) pageID properties,
      n\<lparr>sent := sent n @ [Update pageID properties]\<rparr>)"

definition saveItemToDatabase ::
  "remote \<Rightarrow> notero_item \<Rightarrow> notion \<Rightarrow> (js_error + page_response) \<times> notion" where
  "saveItemToDatabase R item n =
     (let pageID = getNotionPageID item in
      case buildItemProperties R item n of
        (Inl e, n1) \<Rightarrow> (Inl e, n1)
      | (Inr properties, n1) \<Rightarrow>
          if truthy pageID then
            (case pages_update_call R (the pageID) properties n1 of
               (Inr response, n2) \<Rightarrow> (Inr response, n2)
             | (Inl error, n2) \<Rightarrow>
                 if \<not> isAPIResponseError error \<or> error_code error \<noteq> Some ObjectNotFound
                 then (Inl error, n2)
                 else pages_create_call R properties n2)
          else pages_create_call R properties n1)"

section \<open>The notifier callback of class Notero (notion.ts, lines 326--342)\<close>

text \<open>
  The value of the preference \<open>syncOnModifyItems\<close> is a boolean or undefined; the
  callback tests its truthiness.
\<close>

fun pref_truthy :: "bool option \<Rightarrow> bool" where
  "pref_truthy None = False"
| "pref_truthy (Some b) = b"

datatype handler_call =
    onAddItemsToCollection "js_string list"
  | onModifyItems "js_string list"

text \<open>
  \<open>notify\<close> returns the calls of the two handlers that the callback makes, in order: each
  branch returns from the callback, so the second test is reached only when the first
  fails.
\<close>

definition notify :: "bool option \<Rightarrow> js_string \<Rightarrow> js_string \<Rightarrow> js_string list \<Rightarrow> handler_call list" where
  "notify syncOnModifyItems event type ids =
     (if \<not> pref_truthy syncOnModifyItems \<and> event = ascii ''add'' \<and>
         type = ascii ''collection-item''
      then [onAddItemsToCollection ids]
      else if pref_truthy syncOnModifyItems \<and> event = ascii ''modify'' \<and>
         type = ascii ''item''
      then [onModifyItems ids]
      else [])"

section \<open>One synchronization pass (notion.ts, lines 417--434 and 476--521)\<close>

type_synonym item_id = nat

text \<open>A Zotero item: its \<open>id\<close>, and what \<open>new NoteroItem(item)\<close> exposes.\<close>

record zotero_item =
  item_id :: item_id
  noteroItem :: notero_item

text \<open>
  The host application as the pass sees it: the items by identifier, the two
  preferences, the string bundle, and whether the two write operations of
  \<open>NoteroItem\<close> throw.
\<close>

record zotero =
  Items_get :: "item_id \<Rightarrow> zotero_item option"
  notionToken :: "js_string option"
  notionDatabaseID :: "js_string option"
  GetStringFromName :: "js_string \<Rightarrow> js_string"
  saveNotionTag :: "item_id \<Rightarrow> js_error option"
  saveNotionLinkAttachment :: "item_id \<Rightarrow> js_string \<Rightarrow> js_error option"

text \<open>The calls made on the progress window and its item line.\<close>

datatype progress_call =
    changeHeadline
  | show_window
  | new_ItemProgress
  | setText nat nat
  | setProgress nat nat
  | setIcon
  | startCloseTimer
  | setError
  | addDescription js_error

text \<open>
  What a pass leaves behind: the requests sent to the service, the items for which
  \<open>saveItemToNotion\<close> was called, the items whose tag and whose link attachment were
  saved, the calls on the progress window, and the errors written to the log.
\<close>

record sync_log =
  requests :: "api_call list"
  attempts :: "item_id list"
  tagged :: "item_id list"
  linked :: "(item_id \<times> js_string) list"
  progress :: "progress_call list"
  logged :: "js_error list"

definition getNotion :: "zotero \<Rightarrow> api_call list \<Rightarrow> js_error + notion" where
  "getNotion Z reqs =
     (if \<not> truthy (notionToken Z) then
        Inl (Error (ascii ''Missing '' @
          GetStringFromName Z (ascii ''notero.preferences.notionToken'')))
      else if \<not> truthy (notionDatabaseID Z) then
        Inl (Error (ascii ''Missing '' @
          GetStringFromName Z (ascii ''notero.preferences.notionDatabaseID'')))
      else Inr (new_Notion (the (notionDatabaseID Z)) reqs))"

definition saveItemToNotion ::
  "zotero \<Rightarrow> remote \<Rightarrow> zotero_item \<Rightarrow> notion \<times> sync_log \<Rightarrow>
   js_error option \<times> notion \<times> sync_log" where
  "saveItemToNotion Z R item st =
     (case st of (n, L) \<Rightarrow>
      let L1 = L\<lparr>attempts := attempts L @ [item_id item]\<rparr> in
      case saveItemToDatabase R (noteroItem item) n of
        (Inl e, n') \<Rightarrow> (Some e, n', L1)
      | (Inr response, n') \<Rightarrow>
          (case saveNotionTag Z (item_id item) of
             Some e \<Rightarrow> (Some e, n', L1)
           | None \<Rightarrow>
               let L2 = L1\<lparr>tagged := tagged L1 @ [item_id item]\<rparr> in
               (case response_url response of
                  None \<Rightarrow> (None, n', L2)
                | Some url \<Rightarrow>
                    (case saveNotionLinkAttachment Z (item_id item) url of
                       Some e \<Rightarrow> (Some e, n', L2)
                     | None \<Rightarrow>
                         (None, n', L2\<lparr>linked := linked L2 @ [(item_id item, url)]\<rparr>)))))"

text \<open>
  The \<open>for\<close> loop of \<open>saveItemsToNotion\<close>; \<open>k\<close> is the value of \<open>step\<close> before the
  iteration and \<open>len\<close> is \<open>items.length\<close>. An error leaves the loop.
\<close>

fun saveLoop ::
  "zotero \<Rightarrow> remote \<Rightarrow> nat \<Rightarrow> nat \<Rightarrow> zotero_item list \<Rightarrow> notion \<times> sync_log \<Rightarrow>
   js_error option \<times> notion \<times> sync_log" where
  "saveLoop Z R len k [] st = (None, st)"
| "saveLoop Z R len k (item # items) (n, L) =
     (case saveItemToNotion Z R item
             (n, L\<lparr>progress := progress L @ [setText (Suc k) len]\<rparr>) of
        (Some e, st') \<Rightarrow> (Some e, st')
      | (None, n', L') \<Rightarrow>
          saveLoop Z R len (Suc k) items
            (n', L'\<lparr>progress := progress L' @ [setProgress (Suc k) len]\<rparr>))"

text \<open>The \<open>catch\<close> block.\<close>

definition catch_error :: "js_error \<Rightarrow> sync_log \<Rightarrow> sync_log" where
  "catch_error e L =
     L\<lparr>logged := logged L @ [e],
       progress := progress L @ [setError, addDescription e]\<rparr>"

definition saveItemsToNotion ::
  "zotero \<Rightarrow> remote \<Rightarrow> item_id list \<Rightarrow> sync_log \<Rightarrow> sync_log" where
  "saveItemsToNotion Z R ids L =
     (let items = List.map_filter (Items_get Z) ids in
      if items = [] then L
      else
        let L1 = L\<lparr>progress := progress L @ [changeHeadline, show_window, new_ItemProgress]\<rparr>
        in case getNotion Z (requests L1) of
             Inl e \<Rightarrow> catch_error e L1
           | Inr n \<Rightarrow>
               (case saveLoop Z R (length items) 0 items (n, L1) of
                  (None, n', L2) \<Rightarrow>
                    L2\<lparr>requests := sent n',
                       progress := progress L2 @ [setIcon, startCloseTimer]\<rparr>
                | (Some e, n', L2) \<Rightarrow> catch_error e (L2\<lparr>requests := sent n'\<rparr>)))"

section \<open>The debounce queue and the coordinator (notion.ts, lines 281--303 and 436--474)\<close>

definition SYNC_DEBOUNCE_MS :: nat where
  "SYNC_DEBOUNCE_MS = 2000"

type_synonym timeout_id = nat

text \<open>
  A \<open>Set\<close> keeps its elements in insertion order and ignores an element it already
  holds. \<open>new_Set\<close> builds one from an array.
\<close>

definition Set_add :: "'a list \<Rightarrow> 'a \<Rightarrow> 'a list" where
  "Set_add s x = (if x \<in> set s then s else s @ [x])"

definition new_Set :: "'a list \<Rightarrow> 'a list" where
  "new_Set xs = foldl Set_add [] xs"

record queued_sync =
  itemIDs :: "item_id list"
  timeoutID :: "timeout_id option"

text \<open>
  The state of the engine and of the event loop around it: the two fields of \<open>Notero\<close>;
  the clock, the pending timeouts with the time each is due, and the next handle that
  \<open>setTimeout\<close> returns (handles are positive); the calls of \<open>saveItemsToNotion\<close> that
  have not settled yet, with their argument; every batch handed to \<open>saveItemsToNotion\<close>
  so far; and the log of the passes that have settled.
\<close>

record notero_state =
  queuedSync :: "queued_sync option"
  syncInProgress :: bool
  clock :: nat
  timeouts :: "(timeout_id \<times> nat) list"
  next_timeout :: timeout_id
  passes :: "item_id list list"
  batches :: "item_id list list"
  history :: sync_log

definition empty_log :: sync_log where
  "empty_log = \<lparr>requests = [], attempts = [], tagged = [], linked = [], progress = [],
                 logged = []\<rparr>"

definition initial_state :: notero_state where
  "initial_state =
     \<lparr>queuedSync = None, syncInProgress = False, clock = 0, timeouts = [],
      next_timeout = 1, passes = [], batches = [], history = empty_log\<rparr>"

text \<open>The truthiness of \<open>queuedSync?.timeoutID\<close>: undefined and 0 are falsy.\<close>

fun timeout_truthy :: "timeout_id option \<Rightarrow> bool" where
  "timeout_truthy None = False"
| "timeout_truthy (Some t) = (t \<noteq> 0)"

definition clearTimeout :: "timeout_id \<Rightarrow> notero_state \<Rightarrow> notero_state" where
  "clearTimeout t s = s\<lparr>timeouts := filter (\<lambda>p. fst p \<noteq> t) (timeouts s)\<rparr>"

definition setTimeout :: "nat \<Rightarrow> notero_state \<Rightarrow> timeout_id \<times> notero_state" where
  "setTimeout delay s =
     (next_timeout s,
      s\<lparr>timeouts := timeouts s @ [(next_timeout s, clock s + delay)],
        next_timeout := Suc (next_timeout s)\<rparr>)"

definition enqueueItemsToSync :: "zotero_item list \<Rightarrow> notero_state \<Rightarrow> notero_state" where
  "enqueueItemsToSync items s =
     (if items = [] then s
      else
        let s1 = (case queuedSync s of
                    None \<Rightarrow> s
                  | Some q \<Rightarrow>
                      if timeout_truthy (timeoutID q) then clearTimeout (the (timeoutID q)) s
                      else s);
            ids = new_Set ((case queuedSync s of None \<Rightarrow> [] | Some q \<Rightarrow> itemIDs q) @
                           map item_id items)
        in case setTimeout SYNC_DEBOUNCE_MS s1 of
             (t, s2) \<Rightarrow> s2\<lparr>queuedSync := Some \<lparr>itemIDs = ids, timeoutID = Some t\<rparr>\<rparr>)"

text \<open>
  \<open>performSync\<close> up to its first \<open>await\<close>: it takes the queue, raises the flag and calls
  \<open>saveItemsToNotion\<close>, whose promise is then pending.
\<close>

definition performSync :: "notero_state \<Rightarrow> notero_state" where
  "performSync s =
     (case queuedSync s of
        None \<Rightarrow> s
      | Some q \<Rightarrow>
          s\<lparr>queuedSync := None, syncInProgress := True,
            passes := passes s @ [itemIDs q], batches := batches s @ [itemIDs q]\<rparr>)"

text \<open>The callback that \<open>enqueueItemsToSync\<close> hands to \<open>setTimeout\<close>.\<close>

definition timeout_callback :: "notero_state \<Rightarrow> notero_state" where
  "timeout_callback s =
     (case queuedSync s of
        None \<Rightarrow> s
      | Some q \<Rightarrow>
          let s1 = s\<lparr>queuedSync := Some (q\<lparr>timeoutID := None\<rparr>)\<rparr>
          in if \<not> syncInProgress s1 then performSync s1 else s1)"

text \<open>
  \<open>performSync\<close> after \<open>saveItemsToNotion\<close> has settled. With a queue whose timer is
  gone it calls itself, and the flag stays up; otherwise it lowers the flag. A nested call
  lowers the flag when it ends, and the calls waiting for it lower it again in the same
  run of continuations, before the event loop serves a timer or a notification: the model
  lowers it once.
\<close>

definition performSync_resume :: "notero_state \<Rightarrow> notero_state" where
  "performSync_resume s =
     (case queuedSync s of
        None \<Rightarrow> s\<lparr>syncInProgress := False\<rparr>
      | Some q \<Rightarrow>
          if \<not> timeout_truthy (timeoutID q) then performSync s
          else s\<lparr>syncInProgress := False\<rparr>)"

text \<open>
  What the event loop serves: a notification that ends in a call of
  \<open>enqueueItemsToSync\<close>, the passing of time, a timeout that is pending and due, and the
  settling of the oldest pending call of \<open>saveItemsToNotion\<close>, whose effects are
  recorded when it settles. An event that cannot happen in the state gives \<open>None\<close>.
\<close>

datatype event =
    Enqueue "zotero_item list"
  | Elapse nat
  | TimerFires timeout_id
  | PassSettles

fun step :: "zotero \<Rightarrow> remote \<Rightarrow> event \<Rightarrow> notero_state \<Rightarrow> notero_state option" where
  "step Z R (Enqueue items) s = Some (enqueueItemsToSync items s)"
| "step Z R (Elapse d) s = Some (s\<lparr>clock := clock s + d\<rparr>)"
| "step Z R (TimerFires t) s =
     (case map_of (timeouts s) t of
        None \<Rightarrow> None
      | Some due \<Rightarrow>
          if due \<le> clock s then Some (timeout_callback (clearTimeout t s)) else None)"
| "step Z R PassSettles s =
     (case passes s of
        [] \<Rightarrow> None
      | ids # rest \<Rightarrow>
          Some (performSync_resume
            (s\<lparr>passes := rest, history := saveItemsToNotion Z R ids (history s)\<rparr>)))"

fun run :: "zotero \<Rightarrow> remote \<Rightarrow> event list \<Rightarrow> notero_state \<Rightarrow> notero_state option" where
  "run Z R [] s = Some s"
| "run Z R (e # es) s = (case step Z R e s of None \<Rightarrow> None | Some s' \<Rightarrow> run Z R es s')"

inductive reachable :: "zotero \<Rightarrow> remote \<Rightarrow> notero_state \<Rightarrow> bool" for Z R where
  reachable_initial: "reachable Z R initial_state"
| reachable_step: "reachable Z R s \<Longrightarrow> step Z R e s = Some s' \<Longrightarrow> reachable Z R s'"

text \<open>
  A debounce window is a run of notifications and waiting in which no timeout fires.
  \<open>enqueued_ids\<close> are the identifiers enqueued in it, in order, and \<open>last_enqueue\<close> is
  the time of the last call that enqueued something, given the time \<open>c\<close> at its start.
\<close>

fun window_event :: "event \<Rightarrow> bool" where
  "window_event (Enqueue items) = True"
| "window_event (Elapse d) = True"
| "window_event (TimerFires t) = False"
| "window_event PassSettles = False"

fun enqueued_ids :: "event list \<Rightarrow> item_id list" where
  "enqueued_ids [] = []"
| "enqueued_ids (Enqueue items # es) = map item_id items @ enqueued_ids es"
| "enqueued_ids (e # es) = enqueued_ids es"

fun last_enqueue :: "nat \<Rightarrow> nat \<Rightarrow> event list \<Rightarrow> nat" where
  "last_enqueue c l [] = l"
| "last_enqueue c l (Enqueue items # es) = last_enqueue c (if items = [] then l else c) es"
| "last_enqueue c l (Elapse d # es) = last_enqueue (c + d) l es"
| "last_enqueue c l (e # es) = last_enqueue c l es"

text \<open>
  What holds in every state the engine can reach: timeout handles are positive and
  below the next handle; at most one call of \<open>saveItemsToNotion\<close> is pending, and the
  flag is up exactly then; without a queue no timeout is pending; a queue is not empty and
  has no duplicates, and either its timeout is the one pending timeout, or its timeout has
  fired and a pass is running.
\<close>

definition engine_invariant :: "notero_state \<Rightarrow> bool" where
  "engine_invariant s \<longleftrightarrow>
     0 < next_timeout s \<and>
     (\<forall>p \<in> set (timeouts s). 0 < fst p \<and> fst p < next_timeout s) \<and>
     length (passes s) \<le> 1 \<and>
     (syncInProgress s \<longleftrightarrow> passes s \<noteq> []) \<and>
     (case queuedSync s of
        None \<Rightarrow> timeouts s = []
      | Some q \<Rightarrow>
          itemIDs q \<noteq> [] \<and> distinct (itemIDs q) \<and>
          (case timeoutID q of
             None \<Rightarrow> timeouts s = [] \<and> syncInProgress s
           | Some t \<Rightarrow> (\<exists>due. timeouts s = [(t, due)])))"

text \<open>
  The identifiers that wait in the queue, in the order of the \<open>Set\<close>; none when
  there is no queue.
\<close>

definition queue_ids :: "notero_state \<Rightarrow> item_id list" where
  "queue_ids s = (case queuedSync s of None \<Rightarrow> [] | Some q \<Rightarrow> itemIDs q)"

text \<open>
  The batches that come out when the identifiers enqueued along a run are cut into the
  segments \<open>segs\<close> and the queue held \<open>q\<close> at the start: the first batch also
  takes what was queued before.
\<close>

fun merged_batches :: "item_id list \<Rightarrow> item_id list list \<Rightarrow> item_id list list" where
  "merged_batches q [] = []"
| "merged_batches q (seg # segs) = new_Set (q @ seg) # map new_Set segs"

text \<open>
  An event other than the firing of a timeout. A run of such events is a window in which
  the pending timeout has not fired; a pass may settle in it.
\<close>

fun quiet_event :: "event \<Rightarrow> bool" where
  "quiet_event (TimerFires t) = False"
| "quiet_event e = True"


section \<open>The fallback of the title in the words of the specification\<close>

text \<open>
  The specification describes a chain of three sources for a title-like field: the
  primary field, then a secondary synthesized citation string, then the raw title.
  \<open>spec_title_fallback\<close> is that chain, to be compared with \<open>titleContent\<close>.
\<close>

definition spec_title_fallback ::
  "js_string option \<Rightarrow> js_string option \<Rightarrow> js_string option \<Rightarrow> js_string option" where
  "spec_title_fallback primary secondary raw = js_or primary (js_or secondary raw)"

section \<open>Example data\<close>

text \<open>
  An item with the title \<open>A, B\<close>, the tag \<open>x,y\<close> and a DOI, without abstract and
  without in-text citation; a database with \<open>Title\<close> and \<open>Tags\<close> but no \<open>DOI\<close>
  property; a service that reports page \<open>R1\<close> as not found and refuses page \<open>R9\<close>
  for another reason; the same item with a stored page identifier; and a service that
  cannot be reached.
\<close>

definition example_item :: notero_item where
  "example_item =
     \<lparr>getAbstract = None, getAuthors = [], getDOI = Some (ascii ''10.1000/182''),
      getEditors = [], getFilePath = None,
      getFullCitation = Some (ascii ''Doe, J. (2020). A, B.''),
      getInTextCitation = None, getItemType = ascii ''book'',
      getTags = [ascii ''x,y''], getTitle = Some (ascii ''A, B''), getURL = None,
      getYear = None, getZoteroURI = Some (ascii ''zotero://select/items/1''),
      getNotionPageID = None\<rparr>"

definition example_schema :: database_properties where
  "example_schema =
     [ascii ''Name'' \<mapsto> ascii ''title'', ascii ''Title'' \<mapsto> ascii ''rich_text'',
      ascii ''Tags'' \<mapsto> ascii ''multi_select'', ascii ''Abstract'' \<mapsto> ascii ''rich_text'',
      ascii ''Year'' \<mapsto> ascii ''number'',
      ascii ''Full Citation'' \<mapsto> ascii ''rich_text'',
      ascii ''In-Text Citation'' \<mapsto> ascii ''rich_text'']"

definition example_remote :: remote where
  "example_remote =
     \<lparr>databases_retrieve = (\<lambda>requests database_id. Inr example_schema),
      pages_update = (\<lambda>requests pageID properties.
         if pageID = ascii ''R1'' then Inl (APIResponseError ObjectNotFound)
         else if pageID = ascii ''R9'' then Inl (APIResponseError (ascii ''rate_limited''))
         else Inr \<lparr>response_id = pageID, response_url = None\<rparr>),
      pages_create = (\<lambda>requests database_id properties.
         Inr \<lparr>response_id = ascii ''R2'',
              response_url = Some (ascii ''https://www.notion.so/R2'')\<rparr>)\<rparr>"

definition unreachable_remote :: remote where
  "unreachable_remote =
     example_remote\<lparr>databases_retrieve :=
       (\<lambda>requests database_id. Inl (Error (ascii ''Request timed out'')))\<rparr>"

definition stored_item :: "js_string \<Rightarrow> notero_item" where
  "stored_item pageID = example_item\<lparr>getNotionPageID := Some pageID\<rparr>"

text \<open>
  A host with three items: item 1 has no stored page, item 2 is stored as page \<open>R9\<close>,
  which the service refuses, and item 3 is stored as page \<open>R5\<close>. Then states of the
  engine: with item 1 queued and its timeout pending; with the pass for item 1 running;
  with item 2 queued during that pass; with the timeout of item 2 fired during that pass;
  and with a pass for the three items running. Last, a window of notifications.
\<close>

definition example_zotero :: zotero where
  "example_zotero =
     \<lparr>Items_get = (\<lambda>i.
        if i = 1 then Some \<lparr>item_id = 1, noteroItem = example_item\<rparr>
        else if i = 2 then Some \<lparr>item_id = 2, noteroItem = stored_item (ascii ''R9'')\<rparr>
        else if i = 3 then Some \<lparr>item_id = 3, noteroItem = stored_item (ascii ''R5'')\<rparr>
        else None),
      notionToken = Some (ascii ''secret''),
      notionDatabaseID = Some (ascii ''db''),
      GetStringFromName = (\<lambda>name. name),
      saveNotionTag = (\<lambda>i. None),
      saveNotionLinkAttachment = (\<lambda>i url. None)\<rparr>"

definition item1 :: zotero_item where
  "item1 = \<lparr>item_id = 1, noteroItem = example_item\<rparr>"

definition item2 :: zotero_item where
  "item2 = \<lparr>item_id = 2, noteroItem = stored_item (ascii ''R9'')\<rparr>"

definition item3 :: zotero_item where
  "item3 = \<lparr>item_id = 3, noteroItem = stored_item (ascii ''R5'')\<rparr>"

definition pending_state :: notero_state where
  "pending_state =
     \<lparr>queuedSync = Some \<lparr>itemIDs = [1], timeoutID = Some 1\<rparr>, syncInProgress = False,
      clock = 1000, timeouts = [(1, 2000)], next_timeout = 2, passes = [], batches = [],
      history = empty_log\<rparr>"

definition running_state :: notero_state where
  "running_state =
     \<lparr>queuedSync = None, syncInProgress = True,
      clock = 2000, timeouts = [], next_timeout = 2, passes = [[1]], batches = [[1]],
      history = empty_log\<rparr>"

definition requeued_state :: notero_state where
  "requeued_state =
     \<lparr>queuedSync = Some \<lparr>itemIDs = [2], timeoutID = Some 2\<rparr>, syncInProgress = True,
      clock = 4000, timeouts = [(2, 4000)], next_timeout = 3, passes = [[1]], batches = [[1]],
      history = empty_log\<rparr>"

definition expired_state :: notero_state where
  "expired_state =
     \<lparr>queuedSync = Some \<lparr>itemIDs = [2], timeoutID = None\<rparr>, syncInProgress = True,
      clock = 4000, timeouts = [], next_timeout = 3, passes = [[1]], batches = [[1]],
      history = empty_log\<rparr>"

definition batch_state :: notero_state where
  "batch_state =
     \<lparr>queuedSync = None, syncInProgress = True,
      clock = 2000, timeouts = [], next_timeout = 2, passes = [[1, 2, 3]],
      batches = [[1, 2, 3]], history = empty_log\<rparr>"

definition example_window :: "event list" where
  "example_window =
     [Enqueue [item1, item2], Elapse 500, Enqueue [item2, item3], Elapse 100, Enqueue []]"

text \<open>
  \<open>merged_state\<close> is reached from \<open>running_state\<close> when item 2 is enqueued, its
  timeout fires during the pass, and item 3 is enqueued after that. \<open>window_state\<close>
  is reached from the initial state by \<open>example_window\<close>.
\<close>

definition merged_state :: notero_state where
  "merged_state =
     \<lparr>queuedSync = Some \<lparr>itemIDs = [2, 3], timeoutID = Some 3\<rparr>, syncInProgress = True,
      clock = 4000, timeouts = [(3, 6000)], next_timeout = 4, passes = [[1]], batches = [[1]],
      history = empty_log\<rparr>"

definition window_state :: notero_state where
  "window_state =
     \<lparr>queuedSync = Some \<lparr>itemIDs = [1, 2, 3], timeoutID = Some 2\<rparr>, syncInProgress = False,
      clock = 600, timeouts = [(2, 2500)], next_timeout = 3, passes = [], batches = [],
      history = empty_log\<rparr>"


section \<open>Truncation and sanitization\<close>

lemma length_sanitizeSelectOption: "length (sanitizeSelectOption t) = length t"
  by (induction t) simp_all

lemma nth_sanitizeSelectOption:
  "i < length t \<Longrightarrow>
   sanitizeSelectOption t ! i = (if t ! i = COMMA then SEMICOLON else t ! i)"
proof (induction t arbitrary: i)
  case Nil
  then show ?case by simp
next
  case (Cons c cs)
  then show ?case by (cases i) simp_all
qed

lemma COMMA_notin_sanitizeSelectOption: "COMMA \<notin> set (sanitizeSelectOption t)"
  by (induction t) (simp_all add: COMMA_def SEMICOLON_def)

lemma sanitizeSelectOption_no_comma:
  "COMMA \<notin> set t \<Longrightarrow> sanitizeSelectOption t = t"
  by (induction t) auto

text \<open>
  Claim C7. A text longer than 2000 code units is truncated to exactly 2000 code units,
  a text of at most 2000 code units is returned unchanged, and truncating twice is the
  same as truncating once.
\<close>

theorem truncateTextToMaxLength_spec:
  "(length t > 2000 \<longrightarrow> length (truncateTextToMaxLength t) = 2000) \<and>
   (length t \<le> 2000 \<longrightarrow> truncateTextToMaxLength t = t) \<and>
   truncateTextToMaxLength (truncateTextToMaxLength t) = truncateTextToMaxLength t"
  by (simp add: truncateTextToMaxLength_def TEXT_CONTENT_MAX_LENGTH_def)

theorem truncateTextToMaxLength_spec_witness:
  "length (replicate 2001 COMMA) > 2000 \<and>
   length (truncateTextToMaxLength (replicate 2001 COMMA)) = 2000 \<and>
   length (ascii ''Notero'') \<le> 2000 \<and>
   truncateTextToMaxLength (ascii ''Notero'') = ascii ''Notero''"
  using truncateTextToMaxLength_spec [of "replicate 2001 COMMA"]
    truncateTextToMaxLength_spec [of "ascii ''Notero''"]
  by (simp add: ascii_def)

text \<open>
  Claim C8. Sanitizing a tag label replaces every comma by a semicolon and leaves every
  other code unit in place, so the result has the same length and contains no comma;
  sanitizing twice is the same as sanitizing once.
\<close>

theorem sanitizeSelectOption_spec:
  "length (sanitizeSelectOption t) = length t \<and>
   (\<forall>i < length t.
      sanitizeSelectOption t ! i = (if t ! i = COMMA then SEMICOLON else t ! i)) \<and>
   COMMA \<notin> set (sanitizeSelectOption t) \<and>
   sanitizeSelectOption (sanitizeSelectOption t) = sanitizeSelectOption t"
  by (simp add: length_sanitizeSelectOption nth_sanitizeSelectOption
      COMMA_notin_sanitizeSelectOption sanitizeSelectOption_no_comma)

theorem sanitizeSelectOption_spec_witness:
  "(1::nat) < length (ascii ''x,y'') \<and>
   sanitizeSelectOption (ascii ''x,y'') ! 1 = SEMICOLON \<and>
   sanitizeSelectOption (ascii ''x,y'') = ascii ''x;y''"
  using sanitizeSelectOption_spec [of "ascii ''x,y''"]
  by (simp add: ascii_def COMMA_def SEMICOLON_def)

section \<open>The property mapper\<close>


lemma title_not_def: "ascii ''title'' \<notin> fst ` set propertyDefinitions"
  by (simp add: propertyDefinitions_def ascii_def)

lemma propertyDefinitions_functional:
  "(name, t1, b1) \<in> set propertyDefinitions \<Longrightarrow> (name, t2, b2) \<in> set propertyDefinitions \<Longrightarrow>
   t1 = t2 \<and> b1 = b2"
  unfolding propertyDefinitions_def ascii_def
  by auto


lemma map_of_assignProperties:
  "map_of (assignProperties item defs props) name =
     (case map_of (rev defs) name of
        Some (type, build) \<Rightarrow> Some (TypedProperty type (build item))
      | None \<Rightarrow> map_of props name)"
proof (induction defs arbitrary: props)
  case Nil
  then show ?case by simp
next
  case (Cons d defs)
  obtain n t b where d: "d = (n, t, b)" by (cases d)
  show ?case
    by (simp add: d Cons.IH update_conv' map_add_def split: option.splits)
qed

lemma map_of_functional:
  assumes "\<And>k x y. (k, x) \<in> set al \<Longrightarrow> (k, y) \<in> set al \<Longrightarrow> x = y"
    and "(k, v) \<in> set al"
  shows "map_of (rev al) k = Some v"
proof -
  from assms(2) have "(k, v) \<in> set (rev al)" by simp
  then obtain w where w: "map_of (rev al) k = Some w"
    using weak_map_of_SomeI by fastforce
  then have "(k, w) \<in> set al" using map_of_SomeD by fastforce
  with assms show ?thesis using w by blast
qed

lemma map_of_valid_definitions:
  assumes "(name, type, build) \<in> set propertyDefinitions" and "db name = Some type"
  shows "map_of (rev (filter (databaseHasProperty db) propertyDefinitions)) name = Some (type, build)"
proof (rule map_of_functional)
  show "(name, type, build) \<in> set (filter (databaseHasProperty db) propertyDefinitions)"
    using assms by simp
next
  fix k x y
  assume "(k, x) \<in> set (filter (databaseHasProperty db) propertyDefinitions)"
    and "(k, y) \<in> set (filter (databaseHasProperty db) propertyDefinitions)"
  then have "(k, fst x, snd x) \<in> set propertyDefinitions" "(k, fst y, snd y) \<in> set propertyDefinitions"
    by simp_all
  then show "x = y" using propertyDefinitions_functional by (metis prod.collapse)
qed

lemma map_of_title:
  "map_of (mapItemProperties db item) (ascii ''title'') =
     Some (TitleProperty (buildRichText (titleContent item)))"
proof -
  have "ascii ''title'' \<notin> fst ` set (rev (filter (databaseHasProperty db) propertyDefinitions))"
    using title_not_def by auto
  then have "map_of (rev (filter (databaseHasProperty db) propertyDefinitions)) (ascii ''title'') = None"
    by (simp add: map_of_eq_None_iff)
  then show ?thesis
    by (simp add: mapItemProperties_def map_of_assignProperties initialItemProperties_def)
qed



lemma valid_definition_entry:
  "(name, type, build) \<in> set propertyDefinitions \<Longrightarrow> db name = Some type \<Longrightarrow>
   map_of (mapItemProperties db item) name = Some (TypedProperty type (build item))"
  by (simp add: mapItemProperties_def map_of_assignProperties map_of_valid_definitions)



lemma example_getDatabaseProperties:
  "getDatabaseProperties example_remote (new_Notion (ascii ''db'') []) =
     (Inr example_schema,
      \<lparr>databaseID = ascii ''db'', databaseProperties = Some example_schema,
       sent = [Retrieve (ascii ''db'')]\<rparr>)"
  by (simp add: getDatabaseProperties_def getDatabaseProperties_call_def new_Notion_def
      example_remote_def)

lemma truthy_buildRichText:
  "truthy c \<Longrightarrow> \<exists>content. content \<noteq> [] \<and> buildRichText c = [content]"
  by (cases c) (auto simp: buildRichText_def truncateTextToMaxLength_def TEXT_CONTENT_MAX_LENGTH_def)

lemma truthy_js_or: "truthy b \<Longrightarrow> truthy (js_or a b)"
  by (simp add: js_or_def)




text \<open>
  Claim C9, as amended. The page title and the \<open>In-Text Citation\<close> field hold the
  in-text citation when it is not empty and the raw title otherwise; the
  \<open>Full Citation\<close> field holds the full citation when it is not empty and the raw
  title otherwise. The fallback has two steps. The page title is never absent when the raw
  title is not empty.
\<close>

theorem title_fallback:
  "map_of (mapItemProperties db item) (ascii ''title'') =
     Some (TitleProperty (buildRichText
       (if truthy (getInTextCitation item) then getInTextCitation item else getTitle item))) \<and>
   (db (ascii ''In-Text Citation'') = Some (ascii ''rich_text'') \<longrightarrow>
      map_of (mapItemProperties db item) (ascii ''In-Text Citation'') =
        Some (TypedProperty (ascii ''rich_text'') (RichText (buildRichText
          (if truthy (getInTextCitation item) then getInTextCitation item else getTitle item))))) \<and>
   (db (ascii ''Full Citation'') = Some (ascii ''rich_text'') \<longrightarrow>
      map_of (mapItemProperties db item) (ascii ''Full Citation'') =
        Some (TypedProperty (ascii ''rich_text'') (RichText (buildRichText
          (if truthy (getFullCitation item) then getFullCitation item else getTitle item))))) \<and>
   (truthy (getTitle item) \<longrightarrow>
      (\<exists>content. content \<noteq> [] \<and>
         map_of (mapItemProperties db item) (ascii ''title'') = Some (TitleProperty [content])))"
proof -
  have t: "map_of (mapItemProperties db item) (ascii ''title'') =
     Some (TitleProperty (buildRichText
       (if truthy (getInTextCitation item) then getInTextCitation item else getTitle item)))"
    by (simp add: map_of_title titleContent_def js_or_def)
  have i: "db (ascii ''In-Text Citation'') = Some (ascii ''rich_text'') \<longrightarrow>
      map_of (mapItemProperties db item) (ascii ''In-Text Citation'') =
        Some (TypedProperty (ascii ''rich_text'') (RichText (buildRichText
          (if truthy (getInTextCitation item) then getInTextCitation item else getTitle item))))"
    using valid_definition_entry [of "ascii ''In-Text Citation''" "ascii ''rich_text''"
        "\<lambda>item. RichText (buildRichText (js_or (getInTextCitation item) (getTitle item)))" db item]
    by (simp add: propertyDefinitions_def js_or_def)
  have f: "db (ascii ''Full Citation'') = Some (ascii ''rich_text'') \<longrightarrow>
      map_of (mapItemProperties db item) (ascii ''Full Citation'') =
        Some (TypedProperty (ascii ''rich_text'') (RichText (buildRichText
          (if truthy (getFullCitation item) then getFullCitation item else getTitle item))))"
    using valid_definition_entry [of "ascii ''Full Citation''" "ascii ''rich_text''"
        "\<lambda>item. RichText (buildRichText (js_or (getFullCitation item) (getTitle item)))" db item]
    by (simp add: propertyDefinitions_def js_or_def)
  have n: "truthy (getTitle item) \<longrightarrow>
      (\<exists>content. content \<noteq> [] \<and>
         map_of (mapItemProperties db item) (ascii ''title'') = Some (TitleProperty [content]))"
    using truthy_buildRichText [OF truthy_js_or, of "getTitle item" "getInTextCitation item"]
    by (auto simp: map_of_title titleContent_def)
  from t i f n show ?thesis by blast
qed

theorem title_fallback_witness:
  "truthy (getTitle example_item) \<and>
   map_of (mapItemProperties example_schema example_item) (ascii ''title'') =
     Some (TitleProperty [ascii ''A, B'']) \<and>
   example_schema (ascii ''In-Text Citation'') = Some (ascii ''rich_text'') \<and>
   map_of (mapItemProperties example_schema example_item) (ascii ''In-Text Citation'') =
     Some (TypedProperty (ascii ''rich_text'') (RichText [ascii ''A, B''])) \<and>
   example_schema (ascii ''Full Citation'') = Some (ascii ''rich_text'') \<and>
   map_of (mapItemProperties example_schema example_item) (ascii ''Full Citation'') =
     Some (TypedProperty (ascii ''rich_text'') (RichText [ascii ''Doe, J. (2020). A, B.'']))"
proof -
  have s: "example_schema (ascii ''In-Text Citation'') = Some (ascii ''rich_text'')"
    "example_schema (ascii ''Full Citation'') = Some (ascii ''rich_text'')"
    by (simp_all add: example_schema_def ascii_def)
  have t: "truthy (getTitle example_item)" "truthy (getFullCitation example_item)"
    "\<not> truthy (getInTextCitation example_item)"
    by (simp_all add: example_item_def ascii_def)
  have v: "buildRichText (getTitle example_item) = [ascii ''A, B'']"
    "buildRichText (getFullCitation example_item) = [ascii ''Doe, J. (2020). A, B.'']"
    by (simp_all add: example_item_def buildRichText_def truncateTextToMaxLength_def
        TEXT_CONTENT_MAX_LENGTH_def ascii_def)
  show ?thesis
    using title_fallback [of example_schema example_item] s t v by simp
qed

text \<open>
  The claim as stated describes three steps. The item of the example has no in-text
  citation, a full citation and a title: the page title is the raw title, and the other
  synthesized citation string is not tried, in whichever order the chain of the
  specification takes the two citation strings.
\<close>

theorem title_fallback_counterexample:
  "getInTextCitation example_item = None \<and>
   getFullCitation example_item = Some (ascii ''Doe, J. (2020). A, B.'') \<and>
   titleContent example_item = Some (ascii ''A, B'') \<and>
   titleContent example_item \<noteq>
     spec_title_fallback (getInTextCitation example_item) (getFullCitation example_item)
       (getTitle example_item) \<and>
   titleContent example_item \<noteq>
     spec_title_fallback (getFullCitation example_item) (getInTextCitation example_item)
       (getTitle example_item)"
  by (simp add: titleContent_def spec_title_fallback_def js_or_def example_item_def ascii_def)

section \<open>The schema cache\<close>

lemma getDatabaseProperties_hit:
  "databaseProperties n = Some db \<Longrightarrow> getDatabaseProperties R n = (Inr db, n)"
  by (simp add: getDatabaseProperties_def getDatabaseProperties_call_def)

lemma getDatabaseProperties_miss:
  "databaseProperties n = None \<Longrightarrow>
   getDatabaseProperties R n =
     (case databases_retrieve R (sent n) (databaseID n) of
        Inl e \<Rightarrow> (Inl e, n\<lparr>sent := sent n @ [Retrieve (databaseID n)]\<rparr>)
      | Inr db \<Rightarrow> (Inr db, n\<lparr>sent := sent n @ [Retrieve (databaseID n)],
                              databaseProperties := Some db\<rparr>))"
  by (simp add: getDatabaseProperties_def getDatabaseProperties_call_def split: sum.splits)

lemma getDatabaseProperties_populates:
  "getDatabaseProperties R n = (Inr db, n') \<Longrightarrow> databaseProperties n' = Some db"
  by (cases "databaseProperties n")
    (auto simp: getDatabaseProperties_miss getDatabaseProperties_hit split: sum.splits)

lemma getDatabaseProperties_repeat:
  "databaseProperties n = Some db \<Longrightarrow> ((snd \<circ> getDatabaseProperties R) ^^ k) n = n"
  by (induction k) (simp_all add: getDatabaseProperties_hit)

text \<open>
  Claim C5, as amended. On one \<open>Notion\<close> object, with every call awaited before the
  next one starts: a call that finds the schema populated returns it and sends no request;
  a call that finds it empty sends exactly one retrieval request; and once a call has
  returned a schema, the schema is populated, so that any number of further calls leave
  the object and the requests sent as they are and return the same schema.
\<close>

theorem getDatabaseProperties_memoized:
  "(databaseProperties n = Some db \<longrightarrow> getDatabaseProperties R n = (Inr db, n)) \<and>
   (databaseProperties n = None \<longrightarrow>
      sent (snd (getDatabaseProperties R n)) = sent n @ [Retrieve (databaseID n)]) \<and>
   (getDatabaseProperties R n = (Inr db, n') \<longrightarrow>
      databaseProperties n' = Some db \<and>
      ((snd \<circ> getDatabaseProperties R) ^^ k) n' = n' \<and>
      getDatabaseProperties R (((snd \<circ> getDatabaseProperties R) ^^ k) n') = (Inr db, n'))"
proof -
  have a: "databaseProperties n = Some db \<longrightarrow> getDatabaseProperties R n = (Inr db, n)"
    by (simp add: getDatabaseProperties_hit)
  have b: "databaseProperties n = None \<longrightarrow>
      sent (snd (getDatabaseProperties R n)) = sent n @ [Retrieve (databaseID n)]"
    by (simp add: getDatabaseProperties_miss split: sum.splits)
  have c: "getDatabaseProperties R n = (Inr db, n') \<longrightarrow>
      databaseProperties n' = Some db \<and>
      ((snd \<circ> getDatabaseProperties R) ^^ k) n' = n' \<and>
      getDatabaseProperties R (((snd \<circ> getDatabaseProperties R) ^^ k) n') = (Inr db, n')"
    using getDatabaseProperties_populates [of R n db n']
    by (simp add: getDatabaseProperties_repeat getDatabaseProperties_hit)
  from a b c show ?thesis by blast
qed

theorem getDatabaseProperties_memoized_witness:
  "databaseProperties (new_Notion (ascii ''db'') []) = None \<and>
   getDatabaseProperties example_remote (new_Notion (ascii ''db'') []) =
     (Inr example_schema,
      \<lparr>databaseID = ascii ''db'', databaseProperties = Some example_schema,
       sent = [Retrieve (ascii ''db'')]\<rparr>) \<and>
   sent (((snd \<circ> getDatabaseProperties example_remote) ^^ 3)
      \<lparr>databaseID = ascii ''db'', databaseProperties = Some example_schema,
       sent = [Retrieve (ascii ''db'')]\<rparr>) = [Retrieve (ascii ''db'')] \<and>
   getDatabaseProperties example_remote
      \<lparr>databaseID = ascii ''db'', databaseProperties = Some example_schema,
       sent = [Retrieve (ascii ''db'')]\<rparr> =
     (Inr example_schema,
      \<lparr>databaseID = ascii ''db'', databaseProperties = Some example_schema,
       sent = [Retrieve (ascii ''db'')]\<rparr>)"
proof -
  let ?n = "\<lparr>databaseID = ascii ''db'', databaseProperties = Some example_schema,
       sent = [Retrieve (ascii ''db'')]\<rparr>"
  note first = example_getDatabaseProperties
  have "databaseProperties ?n = Some example_schema" by simp
  with getDatabaseProperties_memoized [of "new_Notion (ascii ''db'') []" example_schema
      example_remote ?n 3]
    getDatabaseProperties_memoized [of ?n example_schema example_remote ?n 3] first
  show ?thesis by (simp add: new_Notion_def)
qed

section \<open>The upsert\<close>

lemma saveItemToDatabase_built:
  "buildItemProperties R item n = (Inr properties, n1) \<Longrightarrow>
   saveItemToDatabase R item n =
     (if truthy (getNotionPageID item) then
        (case pages_update R (sent n1) (the (getNotionPageID item)) properties of
           Inr response \<Rightarrow>
             (Inr response,
              n1\<lparr>sent := sent n1 @ [Update (the (getNotionPageID item)) properties]\<rparr>)
         | Inl error \<Rightarrow>
             if error = APIResponseError ObjectNotFound
             then pages_create_call R properties
               (n1\<lparr>sent := sent n1 @ [Update (the (getNotionPageID item)) properties]\<rparr>)
             else (Inl error,
               n1\<lparr>sent := sent n1 @ [Update (the (getNotionPageID item)) properties]\<rparr>))
      else pages_create_call R properties n1)"
proof -
  have code: "(isAPIResponseError e \<longrightarrow> error_code e \<noteq> Some ObjectNotFound) =
      (e \<noteq> APIResponseError ObjectNotFound)" for e
    by (cases e) simp_all
  assume "buildItemProperties R item n = (Inr properties, n1)"
  then show ?thesis
    by (simp add: saveItemToDatabase_def pages_update_call_def code Let_def split: sum.splits)
qed

lemma example_build:
  "buildItemProperties example_remote item (new_Notion (ascii ''db'') []) =
     (Inr (mapItemProperties example_schema item),
      \<lparr>databaseID = ascii ''db'', databaseProperties = Some example_schema,
       sent = [Retrieve (ascii ''db'')]\<rparr>)"
  by (simp add: buildItemProperties_def example_getDatabaseProperties)

text \<open>
  Claim C3, as amended. Once \<open>buildItemProperties\<close> has returned the payload: an item
  with no stored page identifier (or an empty one) leads to exactly one create request
  and no update request; an item with a stored identifier leads to one update request,
  followed by exactly one create request and no further update when the update fails
  with the not-found code of an \<open>APIResponseError\<close>; any other error of the update is
  returned to the caller as it is, with no create request; a successful update returns
  its response.
\<close>

theorem saveItemToDatabase_dispatch:
  assumes "buildItemProperties R item n = (Inr properties, n1)"
  shows "(\<not> truthy (getNotionPageID item) \<longrightarrow>
       saveItemToDatabase R item n =
         (pages_create R (sent n1) (databaseID n1) properties,
          n1\<lparr>sent := sent n1 @ [Create (databaseID n1) properties]\<rparr>)) \<and>
    (truthy (getNotionPageID item) \<and> getNotionPageID item = Some pageID \<longrightarrow>
       (pages_update R (sent n1) pageID properties = Inl (APIResponseError ObjectNotFound) \<longrightarrow>
          saveItemToDatabase R item n =
            (pages_create R (sent n1 @ [Update pageID properties]) (databaseID n1) properties,
             n1\<lparr>sent := sent n1 @
                [Update pageID properties, Create (databaseID n1) properties]\<rparr>)) \<and>
       (\<forall>error. pages_update R (sent n1) pageID properties = Inl error \<and>
            error \<noteq> APIResponseError ObjectNotFound \<longrightarrow>
          saveItemToDatabase R item n =
            (Inl error, n1\<lparr>sent := sent n1 @ [Update pageID properties]\<rparr>)) \<and>
       (\<forall>response. pages_update R (sent n1) pageID properties = Inr response \<longrightarrow>
          saveItemToDatabase R item n =
            (Inr response, n1\<lparr>sent := sent n1 @ [Update pageID properties]\<rparr>)))"
proof (cases "truthy (getNotionPageID item)")
  case False
  then show ?thesis
    by (simp add: saveItemToDatabase_built [OF assms] pages_create_call_def)
next
  case True
  then show ?thesis
    by (auto simp: saveItemToDatabase_built [OF assms] pages_create_call_def)
qed

theorem saveItemToDatabase_dispatch_witness:
  "\<not> truthy (getNotionPageID example_item) \<and>
   saveItemToDatabase example_remote example_item (new_Notion (ascii ''db'') []) =
     (Inr \<lparr>response_id = ascii ''R2'',
           response_url = Some (ascii ''https://www.notion.so/R2'')\<rparr>,
      \<lparr>databaseID = ascii ''db'', databaseProperties = Some example_schema,
       sent = [Retrieve (ascii ''db''),
               Create (ascii ''db'') (mapItemProperties example_schema example_item)]\<rparr>) \<and>
   truthy (getNotionPageID (stored_item (ascii ''R1''))) \<and>
   saveItemToDatabase example_remote (stored_item (ascii ''R1'')) (new_Notion (ascii ''db'') []) =
     (Inr \<lparr>response_id = ascii ''R2'',
           response_url = Some (ascii ''https://www.notion.so/R2'')\<rparr>,
      \<lparr>databaseID = ascii ''db'', databaseProperties = Some example_schema,
       sent = [Retrieve (ascii ''db''),
               Update (ascii ''R1'')
                 (mapItemProperties example_schema (stored_item (ascii ''R1''))),
               Create (ascii ''db'')
                 (mapItemProperties example_schema (stored_item (ascii ''R1'')))]\<rparr>) \<and>
   saveItemToDatabase example_remote (stored_item (ascii ''R9'')) (new_Notion (ascii ''db'') []) =
     (Inl (APIResponseError (ascii ''rate_limited'')),
      \<lparr>databaseID = ascii ''db'', databaseProperties = Some example_schema,
       sent = [Retrieve (ascii ''db''),
               Update (ascii ''R9'')
                 (mapItemProperties example_schema (stored_item (ascii ''R9'')))]\<rparr>) \<and>
   saveItemToDatabase example_remote (stored_item (ascii ''R5'')) (new_Notion (ascii ''db'') []) =
     (Inr \<lparr>response_id = ascii ''R5'', response_url = None\<rparr>,
      \<lparr>databaseID = ascii ''db'', databaseProperties = Some example_schema,
       sent = [Retrieve (ascii ''db''),
               Update (ascii ''R5'')
                 (mapItemProperties example_schema (stored_item (ascii ''R5'')))]\<rparr>)"
proof -
  have ids: "\<not> truthy (getNotionPageID example_item)"
    "truthy (getNotionPageID (stored_item (ascii ''R1'')))"
    "getNotionPageID (stored_item (ascii ''R1'')) = Some (ascii ''R1'')"
    "truthy (getNotionPageID (stored_item (ascii ''R9'')))"
    "getNotionPageID (stored_item (ascii ''R9'')) = Some (ascii ''R9'')"
    "truthy (getNotionPageID (stored_item (ascii ''R5'')))"
    "getNotionPageID (stored_item (ascii ''R5'')) = Some (ascii ''R5'')"
    by (simp_all add: example_item_def stored_item_def ascii_def)
  have service:
    "pages_update example_remote rs (ascii ''R1'') ps = Inl (APIResponseError ObjectNotFound)"
    "pages_update example_remote rs (ascii ''R9'') ps =
       Inl (APIResponseError (ascii ''rate_limited''))"
    "APIResponseError (ascii ''rate_limited'') \<noteq> APIResponseError ObjectNotFound"
    "pages_update example_remote rs (ascii ''R5'') ps =
       Inr \<lparr>response_id = ascii ''R5'', response_url = None\<rparr>"
    "pages_create example_remote rs d ps =
       Inr \<lparr>response_id = ascii ''R2'',
            response_url = Some (ascii ''https://www.notion.so/R2'')\<rparr>" for rs ps d
    by (simp_all add: example_remote_def ObjectNotFound_def ascii_def)
  let ?n1 = "\<lparr>databaseID = ascii ''db'', databaseProperties = Some example_schema,
       sent = [Retrieve (ascii ''db'')]\<rparr>"
  let ?P = "\<lambda>item. mapItemProperties example_schema item"
  have r0: "saveItemToDatabase example_remote example_item (new_Notion (ascii ''db'') []) =
      (pages_create example_remote (sent ?n1) (databaseID ?n1) (?P example_item),
       ?n1\<lparr>sent := sent ?n1 @ [Create (databaseID ?n1) (?P example_item)]\<rparr>)"
    using saveItemToDatabase_dispatch [OF example_build, of example_item] ids(1) by blast
  have r1: "saveItemToDatabase example_remote (stored_item (ascii ''R1''))
        (new_Notion (ascii ''db'') []) =
      (pages_create example_remote
         (sent ?n1 @ [Update (ascii ''R1'') (?P (stored_item (ascii ''R1'')))]) (databaseID ?n1)
         (?P (stored_item (ascii ''R1''))),
       ?n1\<lparr>sent := sent ?n1 @ [Update (ascii ''R1'') (?P (stored_item (ascii ''R1''))),
          Create (databaseID ?n1) (?P (stored_item (ascii ''R1'')))]\<rparr>)"
    using saveItemToDatabase_dispatch [OF example_build, of "stored_item (ascii ''R1'')"
        "ascii ''R1''"] ids(2,3) service(1) by blast
  have r9: "saveItemToDatabase example_remote (stored_item (ascii ''R9''))
        (new_Notion (ascii ''db'') []) =
      (Inl (APIResponseError (ascii ''rate_limited'')),
       ?n1\<lparr>sent := sent ?n1 @ [Update (ascii ''R9'') (?P (stored_item (ascii ''R9'')))]\<rparr>)"
    using saveItemToDatabase_dispatch [OF example_build, of "stored_item (ascii ''R9'')"
        "ascii ''R9''"] ids(4,5) service(2,3) by blast
  have r5: "saveItemToDatabase example_remote (stored_item (ascii ''R5''))
        (new_Notion (ascii ''db'') []) =
      (Inr \<lparr>response_id = ascii ''R5'', response_url = None\<rparr>,
       ?n1\<lparr>sent := sent ?n1 @ [Update (ascii ''R5'') (?P (stored_item (ascii ''R5'')))]\<rparr>)"
    using saveItemToDatabase_dispatch [OF example_build, of "stored_item (ascii ''R5'')"
        "ascii ''R5''"] ids(6,7) service(4) by blast
  show ?thesis
    by (simp add: r0 r1 r9 r5 service(5) ids(1,2))
qed

text \<open>
  The claim as stated fails when the payload cannot be built: with a service that cannot
  be reached the retrieval of the schema throws, \<open>saveItemToDatabase\<close> throws the same
  error, and an item with no stored page identifier leads to no create request.
\<close>

theorem saveItemToDatabase_unbuilt_counterexample:
  "getNotionPageID example_item = None \<and>
   saveItemToDatabase unreachable_remote example_item (new_Notion (ascii ''db'') []) =
     (Inl (Error (ascii ''Request timed out'')),
      \<lparr>databaseID = ascii ''db'', databaseProperties = None,
       sent = [Retrieve (ascii ''db'')]\<rparr>)"
  by (simp add: saveItemToDatabase_def buildItemProperties_def getDatabaseProperties_def
      getDatabaseProperties_call_def new_Notion_def unreachable_remote_def example_item_def)

section \<open>The notifier callback\<close>

text \<open>
  Claim C10. With the preference \<open>syncOnModifyItems\<close> enabled the callback forwards a
  notification only if it is a \<open>modify\<close> of an \<open>item\<close>, to \<open>onModifyItems\<close>, and never
  calls \<open>onAddItemsToCollection\<close>; with the preference disabled it forwards a
  notification only if it is an \<open>add\<close> of a \<open>collection-item\<close>, to
  \<open>onAddItemsToCollection\<close>, and never calls \<open>onModifyItems\<close>; no notification
  leads to more than one handler call.
\<close>

theorem notify_exclusive:
  "(pref_truthy syncOnModifyItems \<longrightarrow>
      notify syncOnModifyItems event type ids =
        (if event = ascii ''modify'' \<and> type = ascii ''item'' then [onModifyItems ids] else []) \<and>
      onAddItemsToCollection ids \<notin> set (notify syncOnModifyItems event type ids)) \<and>
   (\<not> pref_truthy syncOnModifyItems \<longrightarrow>
      notify syncOnModifyItems event type ids =
        (if event = ascii ''add'' \<and> type = ascii ''collection-item''
         then [onAddItemsToCollection ids] else []) \<and>
      onModifyItems ids \<notin> set (notify syncOnModifyItems event type ids)) \<and>
   length (notify syncOnModifyItems event type ids) \<le> 1"
  by (simp add: notify_def)

theorem notify_exclusive_witness:
  "pref_truthy (Some True) \<and>
   notify (Some True) (ascii ''modify'') (ascii ''item'') [ascii ''7''] =
     [onModifyItems [ascii ''7'']] \<and>
   notify (Some True) (ascii ''add'') (ascii ''collection-item'') [ascii ''3-7''] = [] \<and>
   \<not> pref_truthy None \<and>
   notify None (ascii ''add'') (ascii ''collection-item'') [ascii ''3-7''] =
     [onAddItemsToCollection [ascii ''3-7'']] \<and>
   notify None (ascii ''modify'') (ascii ''item'') [ascii ''7''] = []"
  using notify_exclusive [of "Some True" "ascii ''modify''" "ascii ''item''" "[ascii ''7'']"]
    notify_exclusive [of "Some True" "ascii ''add''" "ascii ''collection-item''" "[ascii ''3-7'']"]
    notify_exclusive [of None "ascii ''add''" "ascii ''collection-item''" "[ascii ''3-7'']"]
    notify_exclusive [of None "ascii ''modify''" "ascii ''item''" "[ascii ''7'']"]
  by (simp add: ascii_def)

section \<open>The invariant of the engine\<close>

lemma foldl_Set_add_distinct: "distinct acc \<Longrightarrow> distinct (foldl Set_add acc xs)"
  by (induction xs arbitrary: acc) (simp_all add: Set_add_def)

lemma foldl_Set_add_set: "set (foldl Set_add acc xs) = set acc \<union> set xs"
  by (induction xs arbitrary: acc) (auto simp: Set_add_def)

lemma foldl_Set_add_id: "distinct (acc @ xs) \<Longrightarrow> foldl Set_add acc xs = acc @ xs"
  by (induction xs arbitrary: acc) (simp_all add: Set_add_def)

lemma distinct_new_Set: "distinct (new_Set xs)"
  by (simp add: new_Set_def foldl_Set_add_distinct)

lemma set_new_Set: "set (new_Set xs) = set xs"
  by (simp add: new_Set_def foldl_Set_add_set)

lemma new_Set_distinct: "distinct xs \<Longrightarrow> new_Set xs = xs"
  using foldl_Set_add_id [of "[]" xs] by (simp add: new_Set_def)

lemma new_Set_append: "new_Set (new_Set xs @ ys) = new_Set (xs @ ys)"
proof -
  have "new_Set (new_Set xs @ ys) = foldl Set_add (new_Set (new_Set xs)) ys"
    by (simp add: new_Set_def)
  also have "new_Set (new_Set xs) = new_Set xs"
    by (simp add: new_Set_distinct distinct_new_Set)
  finally show ?thesis by (simp add: new_Set_def)
qed

lemma new_Set_Nil_iff: "new_Set xs = [] \<longleftrightarrow> xs = []"
  using set_new_Set [of xs] by (metis set_empty)

lemma invariant_initial: "engine_invariant initial_state"
  by (simp add: engine_invariant_def initial_state_def)

lemma invariant_enqueue:
  assumes "engine_invariant s"
  shows "engine_invariant (enqueueItemsToSync items s)"
proof (cases "items = []")
  case True
  then show ?thesis using assms by (simp add: enqueueItemsToSync_def)
next
  case False
  then have ne: "new_Set (xs @ map item_id items) \<noteq> []" for xs
    by (simp add: new_Set_Nil_iff)
  show ?thesis
  proof (cases "queuedSync s")
    case None
    then show ?thesis
      using assms False ne [of "[]"]
      by (simp add: enqueueItemsToSync_def engine_invariant_def setTimeout_def Let_def
          distinct_new_Set)
  next
    case (Some q)
    show ?thesis
    proof (cases "timeoutID q")
      case None
      then show ?thesis
        using assms False Some ne [of "itemIDs q"]
        by (simp add: enqueueItemsToSync_def engine_invariant_def setTimeout_def Let_def
            distinct_new_Set)
    next
      case (Some t)
      with \<open>queuedSync s = Some q\<close> assms obtain due where "timeouts s = [(t, due)]" "0 < t"
        by (auto simp: engine_invariant_def)
      then show ?thesis
        using assms False Some \<open>queuedSync s = Some q\<close> ne [of "itemIDs q"]
        by (simp add: enqueueItemsToSync_def engine_invariant_def setTimeout_def Let_def
            clearTimeout_def distinct_new_Set)
    qed
  qed
qed

lemma invariant_fire:
  assumes "engine_invariant s" and "map_of (timeouts s) t = Some due"
  shows "engine_invariant (timeout_callback (clearTimeout t s))"
proof -
  from assms(2) have "timeouts s \<noteq> []" by auto
  with assms(1) obtain q t' due' where q: "queuedSync s = Some q" "timeoutID q = Some t'"
      "timeouts s = [(t', due')]"
    by (auto simp: engine_invariant_def split: option.splits)
  with assms(2) have "t' = t" by (simp split: if_splits)
  with q assms(1) show ?thesis
    by (auto simp: engine_invariant_def timeout_callback_def clearTimeout_def performSync_def
        Let_def)
qed

lemma invariant_settle:
  assumes "engine_invariant s" and "passes s = ids # rest"
  shows "engine_invariant (performSync_resume (s\<lparr>passes := rest, history := h\<rparr>))"
proof -
  from assms have rest: "rest = []" by (simp add: engine_invariant_def)
  show ?thesis
  proof (cases "queuedSync s")
    case None
    then show ?thesis using assms rest
      by (simp add: engine_invariant_def performSync_resume_def)
  next
    case (Some q)
    then show ?thesis using assms rest
      by (cases "timeoutID q")
        (auto simp: engine_invariant_def performSync_resume_def performSync_def)
  qed
qed

lemma invariant_step:
  "engine_invariant s \<Longrightarrow> step Z R e s = Some s' \<Longrightarrow> engine_invariant s'"
proof (cases e)
  case (Enqueue items)
  assume "engine_invariant s" "step Z R e s = Some s'"
  then show ?thesis using Enqueue invariant_enqueue by auto
next
  case (Elapse d)
  assume "engine_invariant s" "step Z R e s = Some s'"
  then show ?thesis using Elapse
    by (auto simp: engine_invariant_def split: option.splits)
next
  case (TimerFires t)
  assume "engine_invariant s" "step Z R e s = Some s'"
  then show ?thesis using TimerFires invariant_fire
    by (auto split: option.splits if_splits)
next
  case PassSettles
  assume "engine_invariant s" "step Z R e s = Some s'"
  then show ?thesis using PassSettles invariant_settle
    by (auto split: list.splits)
qed

lemma reachable_invariant: "reachable Z R s \<Longrightarrow> engine_invariant s"
  by (induction rule: reachable.induct) (auto intro: invariant_initial invariant_step)

lemma reachable_run:
  "reachable Z R s \<Longrightarrow> run Z R es s = Some s' \<Longrightarrow> reachable Z R s'"
  by (induction es arbitrary: s) (auto split: option.splits intro: reachable_step)

lemmas engine_defs = enqueueItemsToSync_def setTimeout_def clearTimeout_def
  timeout_callback_def performSync_def performSync_resume_def new_Set_def Set_add_def
  SYNC_DEBOUNCE_MS_def Let_def initial_state_def

lemma run_pending:
  "run Z R [Enqueue [item1], Elapse 1000] initial_state = Some pending_state"
  unfolding pending_state_def item1_def empty_log_def initial_state_def
  by (simp add: enqueueItemsToSync_def setTimeout_def new_Set_def Set_add_def
      SYNC_DEBOUNCE_MS_def)

lemma run_running:
  "run Z R [Enqueue [item1], Elapse 2000, TimerFires 1] initial_state = Some running_state"
  by (simp add: engine_defs running_state_def item1_def empty_log_def)

lemma run_requeued:
  "run Z R [Enqueue [item2], Elapse 2000] running_state = Some requeued_state"
  by (simp add: engine_defs running_state_def requeued_state_def item2_def)

lemma step_expired:
  "step Z R (TimerFires 2) requeued_state = Some expired_state"
  by (simp add: engine_defs requeued_state_def expired_state_def)

lemma reachable_running: "reachable Z R running_state"
  using reachable_run [OF reachable_initial run_running] .

lemma reachable_requeued: "reachable Z R requeued_state"
  using reachable_run [OF reachable_running run_requeued] .

lemma reachable_expired: "reachable Z R expired_state"
  using reachable_step [OF reachable_requeued step_expired] .


section \<open>The queue and the batches\<close>

lemma enqueue_pending:
  assumes "engine_invariant s" and "queuedSync s = Some q" and "timeoutID q = Some t"
    and "items \<noteq> []"
  shows "enqueueItemsToSync items s =
    s\<lparr>timeouts := [(next_timeout s, clock s + SYNC_DEBOUNCE_MS)],
      next_timeout := Suc (next_timeout s),
      queuedSync := Some \<lparr>itemIDs = new_Set (itemIDs q @ map item_id items),
                           timeoutID = Some (next_timeout s)\<rparr>\<rparr>"
proof -
  from assms(1-3) obtain due where "timeouts s = [(t, due)]" "0 < t"
    by (auto simp: engine_invariant_def)
  with assms(2-4) show ?thesis
    by (simp add: enqueueItemsToSync_def setTimeout_def clearTimeout_def Let_def)
qed

lemma enqueue_empty_queue:
  assumes "engine_invariant s" and "queuedSync s = None" and "items \<noteq> []"
  shows "enqueueItemsToSync items s =
    s\<lparr>timeouts := [(next_timeout s, clock s + SYNC_DEBOUNCE_MS)],
      next_timeout := Suc (next_timeout s),
      queuedSync := Some \<lparr>itemIDs = new_Set (map item_id items),
                           timeoutID = Some (next_timeout s)\<rparr>\<rparr>"
proof -
  from assms(1,2) have "timeouts s = []" by (simp add: engine_invariant_def)
  with assms(2,3) show ?thesis
    by (simp add: enqueueItemsToSync_def setTimeout_def Let_def)
qed

lemma fire_idle:
  assumes "queuedSync s = Some \<lparr>itemIDs = ids, timeoutID = Some t\<rparr>"
    and "timeouts s = [(t, due)]" and "due \<le> clock s + d" and "\<not> syncInProgress s"
  shows "\<exists>s'. run Z R [Elapse d, TimerFires t] s = Some s' \<and>
    batches s' = batches s @ [ids] \<and> passes s' = passes s @ [ids] \<and>
    queuedSync s' = None \<and> timeouts s' = [] \<and> syncInProgress s'"
  using assms
  by (simp add: timeout_callback_def clearTimeout_def performSync_def Let_def)

lemma fire_busy:
  assumes "queuedSync s = Some \<lparr>itemIDs = ids, timeoutID = Some t\<rparr>"
    and "timeouts s = [(t, due)]" and "due \<le> clock s + d" and "syncInProgress s"
  shows "\<exists>s'. run Z R [Elapse d, TimerFires t] s = Some s' \<and>
    batches s' = batches s \<and> passes s' = passes s \<and> syncInProgress s' \<and>
    queuedSync s' = Some \<lparr>itemIDs = ids, timeoutID = None\<rparr> \<and> timeouts s' = []"
  using assms
  by (simp add: timeout_callback_def clearTimeout_def Let_def)

lemma fire_while_running:
  assumes "engine_invariant s" and "syncInProgress s"
    and "step Z R (TimerFires t) s = Some s'"
  shows "passes s' = passes s \<and> batches s' = batches s \<and> syncInProgress s' \<and>
    (\<exists>q. queuedSync s = Some q \<and> timeoutID q = Some t \<and>
         queuedSync s' = Some (q\<lparr>timeoutID := None\<rparr>))"
proof -
  from assms(3) obtain due where due: "map_of (timeouts s) t = Some due"
    and s': "s' = timeout_callback (clearTimeout t s)"
    by (auto split: option.splits if_splits)
  from due have "timeouts s \<noteq> []" by auto
  with assms(1) obtain q t' due' where q: "queuedSync s = Some q" "timeoutID q = Some t'"
      "timeouts s = [(t', due')]"
    by (auto simp: engine_invariant_def split: option.splits)
  with due have "t' = t" by (simp split: if_splits)
  with q assms(2) s' show ?thesis
    by (simp add: timeout_callback_def clearTimeout_def Let_def)
qed

lemma settle_redrain:
  assumes "engine_invariant s" and "queuedSync s = Some q" and "timeoutID q = None"
  shows "\<exists>s'. step Z R PassSettles s = Some s' \<and> syncInProgress s' \<and>
    passes s' = [itemIDs q] \<and> batches s' = batches s @ [itemIDs q] \<and> queuedSync s' = None"
proof -
  from assms have "syncInProgress s" by (auto simp: engine_invariant_def)
  with assms(1) obtain ids where "passes s = [ids]"
    by (cases "passes s") (auto simp: engine_invariant_def)
  with assms(2,3) show ?thesis
    by (simp add: performSync_resume_def performSync_def)
qed

lemma settle_idle:
  assumes "engine_invariant s" and "step Z R PassSettles s = Some s'"
    and "queuedSync s = None \<or> (\<exists>q t. queuedSync s = Some q \<and> timeoutID q = Some t)"
  shows "\<not> syncInProgress s' \<and> passes s' = [] \<and> batches s' = batches s \<and>
    queuedSync s' = queuedSync s \<and> timeouts s' = timeouts s"
proof -
  from assms(2) obtain ids rest where p: "passes s = ids # rest"
    by (auto split: list.splits)
  with assms(1) have rest: "rest = []" by (simp add: engine_invariant_def)
  from assms(3) show ?thesis
  proof
    assume "queuedSync s = None"
    with assms(2) p rest show ?thesis by (auto simp: performSync_resume_def)
  next
    assume "\<exists>q t. queuedSync s = Some q \<and> timeoutID q = Some t"
    then obtain q t where q: "queuedSync s = Some q" "timeoutID q = Some t" by blast
    with assms(1) have "0 < t" by (auto simp: engine_invariant_def)
    with assms(2) p rest q show ?thesis by (auto simp: performSync_resume_def)
  qed
qed

lemma distinct_queue_ids: "engine_invariant s \<Longrightarrow> distinct (queue_ids s)"
  by (auto simp: engine_invariant_def queue_ids_def split: option.splits)

lemma new_Set_queue_ids: "engine_invariant s \<Longrightarrow> new_Set (queue_ids s) = queue_ids s"
  by (simp add: new_Set_distinct distinct_queue_ids)

lemma enqueue_any:
  assumes "engine_invariant s" and "items \<noteq> []"
  shows "enqueueItemsToSync items s =
    s\<lparr>timeouts := [(next_timeout s, clock s + SYNC_DEBOUNCE_MS)],
      next_timeout := Suc (next_timeout s),
      queuedSync := Some \<lparr>itemIDs = new_Set (queue_ids s @ map item_id items),
                           timeoutID = Some (next_timeout s)\<rparr>\<rparr>"
proof (cases "queuedSync s")
  case None
  then show ?thesis
    using enqueue_empty_queue [OF assms(1) None assms(2)] by (simp add: queue_ids_def)
next
  case (Some q)
  show ?thesis
  proof (cases "timeoutID q")
    case None
    with Some assms(1) have "timeouts s = []" by (auto simp: engine_invariant_def)
    with Some None assms(2) show ?thesis
      by (simp add: enqueueItemsToSync_def setTimeout_def Let_def queue_ids_def)
  next
    case (Some t)
    with \<open>queuedSync s = Some q\<close> show ?thesis
      using enqueue_pending [OF assms(1) \<open>queuedSync s = Some q\<close> Some assms(2)]
      by (simp add: queue_ids_def)
  qed
qed

lemma fresh_timeout: "engine_invariant s \<Longrightarrow> next_timeout s \<notin> fst ` set (timeouts s)"
  by (auto simp: engine_invariant_def)

lemma step_enqueue_ids:
  assumes "engine_invariant s"
  shows "queue_ids (enqueueItemsToSync items s) = new_Set (queue_ids s @ map item_id items) \<and>
    batches (enqueueItemsToSync items s) = batches s \<and>
    passes (enqueueItemsToSync items s) = passes s \<and>
    syncInProgress (enqueueItemsToSync items s) = syncInProgress s"
proof (cases "items = []")
  case True
  then show ?thesis using assms
    by (simp add: enqueueItemsToSync_def new_Set_queue_ids)
next
  case False
  show ?thesis
    by (simp add: enqueue_any [OF assms False] queue_ids_def)
qed

lemma step_handoff:
  assumes "engine_invariant s" and "step Z R e s = Some s'"
    and "e = PassSettles \<or> (\<exists>t. e = TimerFires t)"
  shows "(batches s' = batches s \<and> queue_ids s' = queue_ids s) \<or>
    (batches s' = batches s @ [queue_ids s] \<and> queue_ids s' = [])"
proof -
  from assms(3) show ?thesis
  proof
    assume e: "e = PassSettles"
    with assms(2) obtain ids rest where "passes s = ids # rest"
      and s': "s' = performSync_resume
        (s\<lparr>passes := rest, history := saveItemsToNotion Z R ids (history s)\<rparr>)"
      by (auto split: list.splits)
    show ?thesis
      by (auto simp: s' performSync_resume_def performSync_def queue_ids_def
          split: option.splits)
  next
    assume "\<exists>t. e = TimerFires t"
    then obtain t where e: "e = TimerFires t" ..
    with assms(2) have s': "s' = timeout_callback (clearTimeout t s)"
      by (auto split: option.splits if_splits)
    show ?thesis
      by (auto simp: s' timeout_callback_def clearTimeout_def performSync_def queue_ids_def
          Let_def split: option.splits)
  qed
qed

lemma merged_batches_Nil: "merged_batches [] segs = map new_Set segs"
  by (cases segs) simp_all

lemma run_segments_aux:
  assumes "engine_invariant s" and "run Z R es s = Some s'"
  shows "\<exists>segs rest. enqueued_ids es = concat segs @ rest \<and>
    batches s' = batches s @ merged_batches (queue_ids s) segs \<and>
    queue_ids s' = (if segs = [] then new_Set (queue_ids s @ rest) else new_Set rest)"
  using assms
proof (induction es arbitrary: s)
  case Nil
  then have "enqueued_ids [] = concat [] @ [] \<and>
      batches s' = batches s @ merged_batches (queue_ids s) [] \<and>
      queue_ids s' = (if [] = ([] :: item_id list list) then new_Set (queue_ids s @ [])
        else new_Set [])"
    by (simp add: new_Set_queue_ids)
  then show ?case by blast
next
  case (Cons e es)
  from Cons.prems(2) obtain s1 where s1: "step Z R e s = Some s1" and r: "run Z R es s1 = Some s'"
    by (auto split: option.splits)
  from Cons.prems(1) s1 have inv1: "engine_invariant s1" by (rule invariant_step)
  from Cons.IH [OF inv1 r] obtain segs rest where ih:
    "enqueued_ids es = concat segs @ rest"
    "batches s' = batches s1 @ merged_batches (queue_ids s1) segs"
    "queue_ids s' = (if segs = [] then new_Set (queue_ids s1 @ rest) else new_Set rest)"
    by blast
  let ?q = "queue_ids s"
  have kept: ?case if k: "batches s1 = batches s" "queue_ids s1 = ?q"
    "enqueued_ids (e # es) = enqueued_ids es"
    using ih k by auto
  have handed: ?case if h: "batches s1 = batches s @ [?q]" "queue_ids s1 = []"
    "enqueued_ids (e # es) = enqueued_ids es"
  proof -
    have "enqueued_ids (e # es) = concat ([] # segs) @ rest \<and>
      batches s' = batches s @ merged_batches ?q ([] # segs) \<and>
      queue_ids s' = (if [] # segs = [] then new_Set (?q @ rest) else new_Set rest)"
      using ih h by (simp add: merged_batches_Nil new_Set_queue_ids [OF Cons.prems(1)])
    then show ?thesis by blast
  qed
  show ?case
  proof (cases e)
    case (Enqueue items)
    let ?ids = "map item_id items"
    from s1 Enqueue step_enqueue_ids [OF Cons.prems(1), of items]
    have q1: "queue_ids s1 = new_Set (?q @ ?ids)" and b1: "batches s1 = batches s"
      by auto
    show ?thesis
    proof (cases segs)
      case Nil
      have "enqueued_ids (e # es) = concat [] @ (?ids @ rest) \<and>
        batches s' = batches s @ merged_batches ?q [] \<and>
        queue_ids s' = (if [] = ([] :: item_id list list) then new_Set (?q @ ?ids @ rest)
          else new_Set (?ids @ rest))"
        using ih Nil Enqueue q1 b1 new_Set_append [of "?q @ ?ids" rest] by simp
      then show ?thesis by blast
    next
      case (Cons seg more)
      have "enqueued_ids (e # es) = concat ((?ids @ seg) # more) @ rest \<and>
        batches s' = batches s @ merged_batches ?q ((?ids @ seg) # more) \<and>
        queue_ids s' = (if (?ids @ seg) # more = [] then new_Set (?q @ rest) else new_Set rest)"
        using ih Cons Enqueue q1 b1 new_Set_append [of "?q @ ?ids" seg] by simp
      then show ?thesis by blast
    qed
  next
    case (Elapse d)
    with s1 have "batches s1 = batches s" "queue_ids s1 = ?q"
      "enqueued_ids (e # es) = enqueued_ids es"
      by (auto simp: queue_ids_def)
    then show ?thesis by (rule kept)
  next
    case (TimerFires t)
    then have same: "enqueued_ids (e # es) = enqueued_ids es" by simp
    from TimerFires step_handoff [OF Cons.prems(1) s1]
    have "(batches s1 = batches s \<and> queue_ids s1 = ?q) \<or>
        (batches s1 = batches s @ [?q] \<and> queue_ids s1 = [])"
      by blast
    then show ?thesis using kept [OF _ _ same] handed [OF _ _ same] by blast
  next
    case PassSettles
    then have same: "enqueued_ids (e # es) = enqueued_ids es" by simp
    from PassSettles step_handoff [OF Cons.prems(1) s1]
    have "(batches s1 = batches s \<and> queue_ids s1 = ?q) \<or>
        (batches s1 = batches s @ [?q] \<and> queue_ids s1 = [])"
      by blast
    then show ?thesis using kept [OF _ _ same] handed [OF _ _ same] by blast
  qed
qed

lemma run_segments:
  assumes "engine_invariant s" and "run Z R es s = Some s'"
  shows "\<exists>segs rest. queue_ids s @ enqueued_ids es = concat segs @ rest \<and>
    batches s' = batches s @ map new_Set segs \<and> queue_ids s' = new_Set rest"
proof -
  from run_segments_aux [OF assms] obtain segs rest where a:
    "enqueued_ids es = concat segs @ rest"
    "batches s' = batches s @ merged_batches (queue_ids s) segs"
    "queue_ids s' = (if segs = [] then new_Set (queue_ids s @ rest) else new_Set rest)"
    by blast
  show ?thesis
  proof (cases segs)
    case Nil
    with a have "queue_ids s @ enqueued_ids es = concat [] @ (queue_ids s @ rest) \<and>
      batches s' = batches s @ map new_Set [] \<and> queue_ids s' = new_Set (queue_ids s @ rest)"
      by simp
    then show ?thesis by blast
  next
    case (Cons seg more)
    with a have "queue_ids s @ enqueued_ids es = concat ((queue_ids s @ seg) # more) @ rest \<and>
      batches s' = batches s @ map new_Set ((queue_ids s @ seg) # more) \<and>
      queue_ids s' = new_Set rest"
      by simp
    then show ?thesis by blast
  qed
qed

lemma during_pass:
  assumes "engine_invariant s" and "syncInProgress s"
    and "\<forall>e \<in> set es. e \<noteq> PassSettles" and "run Z R es s = Some s'"
  shows "syncInProgress s' \<and> passes s' = passes s \<and> batches s' = batches s \<and>
    queue_ids s' = new_Set (queue_ids s @ enqueued_ids es)"
  using assms
proof (induction es arbitrary: s)
  case Nil
  then show ?case by (simp add: new_Set_queue_ids)
next
  case (Cons e es)
  from Cons.prems(4) obtain s1 where s1: "step Z R e s = Some s1" and r: "run Z R es s1 = Some s'"
    by (auto split: option.splits)
  from Cons.prems(1) s1 have inv1: "engine_invariant s1" by (rule invariant_step)
  have one: "syncInProgress s1 \<and> passes s1 = passes s \<and> batches s1 = batches s \<and>
      new_Set (queue_ids s1 @ enqueued_ids es) = new_Set (queue_ids s @ enqueued_ids (e # es))"
  proof (cases e)
    case (Enqueue items)
    with s1 step_enqueue_ids [OF Cons.prems(1), of items] Cons.prems(2) show ?thesis
      by (auto simp: new_Set_append [of "queue_ids s @ map item_id items"])
  next
    case (Elapse d)
    with s1 Cons.prems(2) show ?thesis by (auto simp: queue_ids_def)
  next
    case (TimerFires t)
    with fire_while_running [OF Cons.prems(1,2), of Z R t s1] s1 show ?thesis
      by (auto simp: queue_ids_def)
  next
    case PassSettles
    with Cons.prems(3) show ?thesis by simp
  qed
  with Cons.IH [OF inv1 _ _ r] Cons.prems(3) show ?case by simp
qed

lemma settle_outcomes:
  assumes "engine_invariant s" and "syncInProgress s"
  shows "\<exists>s'. step Z R PassSettles s = Some s' \<and>
    (queuedSync s = None \<longrightarrow>
       \<not> syncInProgress s' \<and> passes s' = [] \<and> batches s' = batches s \<and>
       queuedSync s' = None) \<and>
    (\<forall>q. queuedSync s = Some q \<and> timeoutID q = None \<longrightarrow>
       syncInProgress s' \<and> passes s' = [queue_ids s] \<and>
       batches s' = batches s @ [queue_ids s] \<and> queuedSync s' = None) \<and>
    (\<forall>q t. queuedSync s = Some q \<and> timeoutID q = Some t \<longrightarrow>
       \<not> syncInProgress s' \<and> passes s' = [] \<and> batches s' = batches s \<and>
       queuedSync s' = queuedSync s \<and> timeouts s' = timeouts s \<and>
       (\<exists>due. timeouts s' = [(t, due)] \<and>
          (\<forall>d. due \<le> clock s' + d \<longrightarrow>
             (\<exists>s3. run Z R [Elapse d, TimerFires t] s' = Some s3 \<and>
                batches s3 = batches s @ [queue_ids s] \<and> passes s3 = [queue_ids s] \<and>
                queuedSync s3 = None))))"
proof -
  from assms obtain ids where p: "passes s = [ids]"
    by (cases "passes s") (auto simp: engine_invariant_def)
  define s' where "s' = performSync_resume
      (s\<lparr>passes := [], history := saveItemsToNotion Z R ids (history s)\<rparr>)"
  have st: "step Z R PassSettles s = Some s'" by (simp add: p s'_def)
  have a: "queuedSync s = None \<longrightarrow>
       \<not> syncInProgress s' \<and> passes s' = [] \<and> batches s' = batches s \<and>
       queuedSync s' = None"
    by (simp add: s'_def performSync_resume_def)
  have b: "\<forall>q. queuedSync s = Some q \<and> timeoutID q = None \<longrightarrow>
       syncInProgress s' \<and> passes s' = [queue_ids s] \<and>
       batches s' = batches s @ [queue_ids s] \<and> queuedSync s' = None"
    by (simp add: s'_def performSync_resume_def performSync_def queue_ids_def)
  have c: "\<forall>q t. queuedSync s = Some q \<and> timeoutID q = Some t \<longrightarrow>
       \<not> syncInProgress s' \<and> passes s' = [] \<and> batches s' = batches s \<and>
       queuedSync s' = queuedSync s \<and> timeouts s' = timeouts s \<and>
       (\<exists>due. timeouts s' = [(t, due)] \<and>
          (\<forall>d. due \<le> clock s' + d \<longrightarrow>
             (\<exists>s3. run Z R [Elapse d, TimerFires t] s' = Some s3 \<and>
                batches s3 = batches s @ [queue_ids s] \<and> passes s3 = [queue_ids s] \<and>
                queuedSync s3 = None)))"
  proof (intro allI impI)
    fix q t assume q: "queuedSync s = Some q \<and> timeoutID q = Some t"
    with assms(1) obtain due where due: "timeouts s = [(t, due)]" and t: "0 < t"
      by (auto simp: engine_invariant_def)
    from q t have idle: "\<not> syncInProgress s'" "passes s' = []" "batches s' = batches s"
      "queuedSync s' = queuedSync s" "timeouts s' = timeouts s"
      by (simp_all add: s'_def performSync_resume_def)
    from q have rec: "queuedSync s' = Some \<lparr>itemIDs = queue_ids s, timeoutID = Some t\<rparr>"
      by (simp add: idle queue_ids_def)
    have "\<forall>d. due \<le> clock s' + d \<longrightarrow>
             (\<exists>s3. run Z R [Elapse d, TimerFires t] s' = Some s3 \<and>
                batches s3 = batches s @ [queue_ids s] \<and> passes s3 = [queue_ids s] \<and>
                queuedSync s3 = None)"
    proof (intro allI impI)
      fix d assume d: "due \<le> clock s' + d"
      have tm: "timeouts s' = [(t, due)]" using idle(5) due by simp
      from fire_idle [OF rec tm d idle(1), of Z R]
      obtain s3 where "run Z R [Elapse d, TimerFires t] s' = Some s3"
        "batches s3 = batches s' @ [queue_ids s]" "passes s3 = passes s' @ [queue_ids s]"
        "queuedSync s3 = None"
        by blast
      then have "run Z R [Elapse d, TimerFires t] s' = Some s3 \<and>
                batches s3 = batches s @ [queue_ids s] \<and> passes s3 = [queue_ids s] \<and>
                queuedSync s3 = None"
        by (simp add: idle(2,3))
      then show "\<exists>s3. run Z R [Elapse d, TimerFires t] s' = Some s3 \<and>
                batches s3 = batches s @ [queue_ids s] \<and> passes s3 = [queue_ids s] \<and>
                queuedSync s3 = None" ..
    qed
    with idle due show "\<not> syncInProgress s' \<and> passes s' = [] \<and> batches s' = batches s \<and>
       queuedSync s' = queuedSync s \<and> timeouts s' = timeouts s \<and>
       (\<exists>due. timeouts s' = [(t, due)] \<and>
          (\<forall>d. due \<le> clock s' + d \<longrightarrow>
             (\<exists>s3. run Z R [Elapse d, TimerFires t] s' = Some s3 \<and>
                batches s3 = batches s @ [queue_ids s] \<and> passes s3 = [queue_ids s] \<and>
                queuedSync s3 = None)))"
      by simp
  qed
  show ?thesis by (intro exI [of _ s'] conjI st a b c)
qed

lemma run_calls_total:
  "\<forall>e \<in> set es. window_event e \<Longrightarrow> \<exists>s'. run Z R es s = Some s'"
proof (induction es arbitrary: s)
  case Nil
  then show ?case by simp
next
  case (Cons e es)
  then show ?case by (cases e) simp_all
qed

lemma settle_pending:
  assumes "engine_invariant s" and "step Z R PassSettles s = Some s'"
    and "queuedSync s = None \<or> (\<exists>q t. queuedSync s = Some q \<and> timeoutID q = Some t)"
  shows "queuedSync s' = queuedSync s \<and> timeouts s' = timeouts s \<and>
    batches s' = batches s \<and> clock s' = clock s"
proof -
  from assms(2) obtain ids rest where p: "passes s = ids # rest"
    by (auto split: list.splits)
  from assms(3) show ?thesis
  proof
    assume "queuedSync s = None"
    with assms(2) p show ?thesis by (auto simp: performSync_resume_def)
  next
    assume "\<exists>q t. queuedSync s = Some q \<and> timeoutID q = Some t"
    then obtain q t where q: "queuedSync s = Some q" "timeoutID q = Some t" by blast
    with assms(1) have "0 < t" by (auto simp: engine_invariant_def)
    with assms(2) p q show ?thesis by (auto simp: performSync_resume_def)
  qed
qed

lemma quiet_pending:
  assumes "engine_invariant s" and "queuedSync s = Some q" and "timeoutID q = Some t"
    and "timeouts s = [(t, l + SYNC_DEBOUNCE_MS)]" and "\<forall>e \<in> set es. quiet_event e"
    and "run Z R es s = Some s'"
  shows "\<exists>t'.
    queuedSync s' = Some \<lparr>itemIDs = new_Set (itemIDs q @ enqueued_ids es), timeoutID = Some t'\<rparr> \<and>
    timeouts s' = [(t', last_enqueue (clock s) l es + SYNC_DEBOUNCE_MS)] \<and>
    batches s' = batches s"
  using assms
proof (induction es arbitrary: s q t l)
  case Nil
  then have "distinct (itemIDs q)" by (auto simp: engine_invariant_def)
  with Nil show ?case by (simp add: new_Set_distinct)
next
  case (Cons e es)
  from Cons.prems(6) obtain s1 where s1: "step Z R e s = Some s1" and r: "run Z R es s1 = Some s'"
    by (auto split: option.splits)
  from Cons.prems(1) s1 have inv1: "engine_invariant s1" by (rule invariant_step)
  from Cons.prems(5) have quiet: "\<forall>e \<in> set es. quiet_event e" by simp
  show ?case
  proof (cases e)
    case (Enqueue items)
    show ?thesis
    proof (cases "items = []")
      case True
      with s1 Enqueue have "s1 = s" by (simp add: enqueueItemsToSync_def)
      with Cons.IH [OF Cons.prems(1-4) quiet] r True Enqueue show ?thesis by simp
    next
      case False
      let ?q1 = "\<lparr>itemIDs = new_Set (itemIDs q @ map item_id items),
                   timeoutID = Some (next_timeout s)\<rparr>"
      have e1: "s1 = s\<lparr>timeouts := [(next_timeout s, clock s + SYNC_DEBOUNCE_MS)],
          next_timeout := Suc (next_timeout s), queuedSync := Some ?q1\<rparr>"
        using enqueue_pending [OF Cons.prems(1-3) False] s1 Enqueue by simp
      have "\<exists>t'. queuedSync s' = Some \<lparr>itemIDs = new_Set (itemIDs ?q1 @ enqueued_ids es),
                                 timeoutID = Some t'\<rparr> \<and>
          timeouts s' = [(t', last_enqueue (clock s1) (clock s) es + SYNC_DEBOUNCE_MS)] \<and>
          batches s' = batches s1"
        using quiet r
        by (intro Cons.IH [OF inv1, of ?q1 "next_timeout s" "clock s"]) (simp_all add: e1)
      then show ?thesis using False Enqueue
        by (simp add: new_Set_append) (simp add: e1)
    qed
  next
    case (Elapse d)
    with s1 have e1: "s1 = s\<lparr>clock := clock s + d\<rparr>" by simp
    have "\<exists>t'. queuedSync s' = Some \<lparr>itemIDs = new_Set (itemIDs q @ enqueued_ids es),
                               timeoutID = Some t'\<rparr> \<and>
        timeouts s' = [(t', last_enqueue (clock s1) l es + SYNC_DEBOUNCE_MS)] \<and>
        batches s' = batches s1"
      using Cons.prems(2-4) quiet r by (intro Cons.IH [OF inv1, of q t l]) (simp_all add: e1)
    then show ?thesis using Elapse by (simp add: e1)
  next
    case (TimerFires t)
    with Cons.prems(5) show ?thesis by simp
  next
    case PassSettles
    from settle_pending [OF Cons.prems(1), of Z R s1] s1 PassSettles Cons.prems(2,3)
    have k: "queuedSync s1 = queuedSync s" "timeouts s1 = timeouts s" "batches s1 = batches s"
      "clock s1 = clock s"
      by auto
    have "\<exists>t'. queuedSync s' = Some \<lparr>itemIDs = new_Set (itemIDs q @ enqueued_ids es),
                               timeoutID = Some t'\<rparr> \<and>
        timeouts s' = [(t', last_enqueue (clock s1) l es + SYNC_DEBOUNCE_MS)] \<and>
        batches s' = batches s1"
      using Cons.prems(2-4) quiet r by (intro Cons.IH [OF inv1, of q t l]) (simp_all add: k)
    then show ?thesis using PassSettles by (simp add: k)
  qed
qed

lemma quiet_start:
  assumes "engine_invariant s" and "queuedSync s = None"
    and "\<forall>e \<in> set es. quiet_event e" and "enqueued_ids es \<noteq> []"
    and "run Z R es s = Some s'"
  shows "\<exists>t'.
    queuedSync s' = Some \<lparr>itemIDs = new_Set (enqueued_ids es), timeoutID = Some t'\<rparr> \<and>
    timeouts s' = [(t', last_enqueue (clock s) l es + SYNC_DEBOUNCE_MS)] \<and>
    batches s' = batches s"
  using assms
proof (induction es arbitrary: s)
  case Nil
  then show ?case by simp
next
  case (Cons e es)
  from Cons.prems(5) obtain s1 where s1: "step Z R e s = Some s1" and r: "run Z R es s1 = Some s'"
    by (auto split: option.splits)
  from Cons.prems(1) s1 have inv1: "engine_invariant s1" by (rule invariant_step)
  from Cons.prems(3) have quiet: "\<forall>e \<in> set es. quiet_event e" by simp
  show ?case
  proof (cases e)
    case (Enqueue items)
    show ?thesis
    proof (cases "items = []")
      case True
      with s1 Enqueue have "s1 = s" by (simp add: enqueueItemsToSync_def)
      with Cons.IH [OF Cons.prems(1,2) quiet] Cons.prems(4) r True Enqueue show ?thesis by simp
    next
      case False
      let ?q1 = "\<lparr>itemIDs = new_Set (map item_id items),
                   timeoutID = Some (next_timeout s)\<rparr>"
      have e1: "s1 = s\<lparr>timeouts := [(next_timeout s, clock s + SYNC_DEBOUNCE_MS)],
          next_timeout := Suc (next_timeout s), queuedSync := Some ?q1\<rparr>"
        using enqueue_empty_queue [OF Cons.prems(1,2) False] s1 Enqueue by simp
      have "\<exists>t'. queuedSync s' = Some \<lparr>itemIDs = new_Set (itemIDs ?q1 @ enqueued_ids es),
                                 timeoutID = Some t'\<rparr> \<and>
          timeouts s' = [(t', last_enqueue (clock s1) (clock s) es + SYNC_DEBOUNCE_MS)] \<and>
          batches s' = batches s1"
        using quiet r
        by (intro quiet_pending [OF inv1, of ?q1 "next_timeout s" "clock s"]) (simp_all add: e1)
      then show ?thesis using False Enqueue
        by (simp add: new_Set_append) (simp add: e1)
    qed
  next
    case (Elapse d)
    with s1 have e1: "s1 = s\<lparr>clock := clock s + d\<rparr>" by simp
    have "\<exists>t'. queuedSync s' = Some \<lparr>itemIDs = new_Set (enqueued_ids es), timeoutID = Some t'\<rparr> \<and>
        timeouts s' = [(t', last_enqueue (clock s1) l es + SYNC_DEBOUNCE_MS)] \<and>
        batches s' = batches s1"
      using Cons.prems(2,4) quiet r Elapse by (intro Cons.IH [OF inv1]) (simp_all add: e1)
    then show ?thesis using Elapse by (simp add: e1)
  next
    case (TimerFires t)
    with Cons.prems(3) show ?thesis by simp
  next
    case PassSettles
    from settle_pending [OF Cons.prems(1), of Z R s1] s1 PassSettles Cons.prems(2)
    have k: "queuedSync s1 = queuedSync s" "timeouts s1 = timeouts s" "batches s1 = batches s"
      "clock s1 = clock s"
      by auto
    have "\<exists>t'. queuedSync s' = Some \<lparr>itemIDs = new_Set (enqueued_ids es), timeoutID = Some t'\<rparr> \<and>
        timeouts s' = [(t', last_enqueue (clock s1) l es + SYNC_DEBOUNCE_MS)] \<and>
        batches s' = batches s1"
      using Cons.prems(2,4) quiet r PassSettles by (intro Cons.IH [OF inv1]) (simp_all add: k)
    then show ?thesis using PassSettles by (simp add: k)
  qed
qed

lemma example_window_facts:
  "\<forall>e \<in> set example_window. window_event e"
  "enqueued_ids example_window = [1, 2, 2, 3]"
  "new_Set (enqueued_ids example_window) = [1, 2, 3]"
  "last_enqueue 0 0 example_window = 500"
  "last_enqueue 2000 2000 example_window = 2500"
  by (simp_all add: example_window_def item1_def item2_def item3_def new_Set_def Set_add_def)

lemma run_expired:
  "run Z R [Enqueue [item2], Elapse 2000, TimerFires 2] running_state = Some expired_state"
  by (simp add: engine_defs running_state_def expired_state_def item2_def)

lemma run_merged:
  "run Z R [Enqueue [item2], Elapse 2000, TimerFires 2, Enqueue [item3]] running_state =
     Some merged_state"
  by (simp add: engine_defs running_state_def merged_state_def item2_def item3_def)

lemma run_window: "run Z R example_window initial_state = Some window_state"
  by (simp add: engine_defs example_window_def window_state_def item1_def item2_def item3_def)

lemma run_two_windows:
  "map_option batches
     (run Z R [Enqueue [item2], Elapse 2000, TimerFires 2, Enqueue [item3], Elapse 2000,
        TimerFires 3, PassSettles] running_state) = Some [[1], [2, 3]]"
  by (simp add: engine_defs running_state_def item2_def item3_def)

lemma settle_requeued:
  "map_option syncInProgress (step Z R PassSettles requeued_state) = Some False"
  "map_option batches (step Z R PassSettles requeued_state) = Some [[1]]"
  "map_option queuedSync (step Z R PassSettles requeued_state) =
     Some (Some \<lparr>itemIDs = [2], timeoutID = Some 2\<rparr>)"
  by (simp_all add: engine_defs requeued_state_def)

lemma reachable_window: "reachable Z R window_state"
  using reachable_run [OF reachable_initial run_window] .


section \<open>Single flight\<close>

text \<open>
  Claim C2, as amended. In every reachable state at most one call of
  \<open>saveItemsToNotion\<close> is pending, and \<open>syncInProgress\<close> is up exactly when one is.
  A timeout that fires while the flag is up starts no pass: it only clears the
  \<open>timeoutID\<close> of the queue. A queue without \<open>timeoutID\<close> exists only while a pass
  is running, and when that pass settles the queue is taken as the next batch at once, with
  the flag still up. When the pass settles with no queue, or with a queue whose timeout is
  still pending, the flag goes down and the queue is left as it is. Last, whatever is
  enqueued, waited and fired while a pass is running, the pass stays the only one, no batch
  is started, and the queue holds, without duplicates, what was queued at the start and
  what was enqueued since. When the pass then settles there are three cases. With no queue
  the flag goes down. With a queue whose timeout has fired, the re-drain check hands the
  whole queue to a new pass before the flag goes down. With a queue whose timeout is still
  pending there is no re-drain: the flag goes down, the queue and its timeout stay, and the
  whole queue is handed to a pass when that timeout fires.
\<close>

theorem single_flight:
  assumes "reachable Z R s"
  shows "length (passes s) \<le> 1 \<and>
    (syncInProgress s \<longleftrightarrow> passes s \<noteq> []) \<and>
    (\<forall>t s'. syncInProgress s \<and> step Z R (TimerFires t) s = Some s' \<longrightarrow>
       passes s' = passes s \<and> batches s' = batches s \<and> syncInProgress s' \<and>
       (\<exists>q. queuedSync s = Some q \<and> timeoutID q = Some t \<and>
            queuedSync s' = Some (q\<lparr>timeoutID := None\<rparr>))) \<and>
    (\<forall>q. queuedSync s = Some q \<and> timeoutID q = None \<longrightarrow>
       syncInProgress s \<and>
       (\<exists>s'. step Z R PassSettles s = Some s' \<and> syncInProgress s' \<and>
          passes s' = [itemIDs q] \<and> batches s' = batches s @ [itemIDs q] \<and>
          queuedSync s' = None)) \<and>
    (\<forall>s'. step Z R PassSettles s = Some s' \<and>
       (queuedSync s = None \<or> (\<exists>q t. queuedSync s = Some q \<and> timeoutID q = Some t)) \<longrightarrow>
       \<not> syncInProgress s' \<and> passes s' = [] \<and> batches s' = batches s \<and>
       queuedSync s' = queuedSync s) \<and>
    (\<forall>es s'. syncInProgress s \<and> (\<forall>e \<in> set es. e \<noteq> PassSettles) \<and>
         run Z R es s = Some s' \<longrightarrow>
       syncInProgress s' \<and> passes s' = passes s \<and> batches s' = batches s \<and>
       queue_ids s' = new_Set (queue_ids s @ enqueued_ids es) \<and>
       (\<exists>s''. step Z R PassSettles s' = Some s'' \<and>
          (queuedSync s' = None \<longrightarrow>
             \<not> syncInProgress s'' \<and> passes s'' = [] \<and> batches s'' = batches s \<and>
             queuedSync s'' = None) \<and>
          (\<forall>q. queuedSync s' = Some q \<and> timeoutID q = None \<longrightarrow>
             syncInProgress s'' \<and>
             passes s'' = [new_Set (queue_ids s @ enqueued_ids es)] \<and>
             batches s'' = batches s @ [new_Set (queue_ids s @ enqueued_ids es)] \<and>
             queuedSync s'' = None) \<and>
          (\<forall>q t. queuedSync s' = Some q \<and> timeoutID q = Some t \<longrightarrow>
             \<not> syncInProgress s'' \<and> passes s'' = [] \<and> batches s'' = batches s \<and>
             queuedSync s'' = queuedSync s' \<and> timeouts s'' = timeouts s' \<and>
             (\<exists>due. timeouts s'' = [(t, due)] \<and>
                (\<forall>d. due \<le> clock s'' + d \<longrightarrow>
                   (\<exists>s3. run Z R [Elapse d, TimerFires t] s'' = Some s3 \<and>
                      batches s3 = batches s @ [new_Set (queue_ids s @ enqueued_ids es)] \<and>
                      passes s3 = [new_Set (queue_ids s @ enqueued_ids es)] \<and>
                      queuedSync s3 = None))))))"
proof -
  from assms have inv: "engine_invariant s" by (rule reachable_invariant)
  have a: "length (passes s) \<le> 1" "syncInProgress s \<longleftrightarrow> passes s \<noteq> []"
    using inv by (simp_all add: engine_invariant_def)
  have b: "\<forall>t s'. syncInProgress s \<and> step Z R (TimerFires t) s = Some s' \<longrightarrow>
       passes s' = passes s \<and> batches s' = batches s \<and> syncInProgress s' \<and>
       (\<exists>q. queuedSync s = Some q \<and> timeoutID q = Some t \<and>
            queuedSync s' = Some (q\<lparr>timeoutID := None\<rparr>))"
    using fire_while_running [OF inv] by blast
  have c: "\<forall>q. queuedSync s = Some q \<and> timeoutID q = None \<longrightarrow>
       syncInProgress s \<and>
       (\<exists>s'. step Z R PassSettles s = Some s' \<and> syncInProgress s' \<and>
          passes s' = [itemIDs q] \<and> batches s' = batches s @ [itemIDs q] \<and>
          queuedSync s' = None)"
  proof (intro allI impI)
    fix q assume q: "queuedSync s = Some q \<and> timeoutID q = None"
    then have "syncInProgress s" using inv by (auto simp: engine_invariant_def)
    moreover from q have "\<exists>s'. step Z R PassSettles s = Some s' \<and> syncInProgress s' \<and>
          passes s' = [itemIDs q] \<and> batches s' = batches s @ [itemIDs q] \<and>
          queuedSync s' = None"
      by (intro settle_redrain [OF inv]) simp_all
    ultimately show "syncInProgress s \<and>
       (\<exists>s'. step Z R PassSettles s = Some s' \<and> syncInProgress s' \<and>
          passes s' = [itemIDs q] \<and> batches s' = batches s @ [itemIDs q] \<and>
          queuedSync s' = None)" ..
  qed
  have d: "\<forall>s'. step Z R PassSettles s = Some s' \<and>
       (queuedSync s = None \<or> (\<exists>q t. queuedSync s = Some q \<and> timeoutID q = Some t)) \<longrightarrow>
       \<not> syncInProgress s' \<and> passes s' = [] \<and> batches s' = batches s \<and>
       queuedSync s' = queuedSync s"
    using settle_idle [OF inv] by blast
  have e: "\<forall>es s'. syncInProgress s \<and> (\<forall>e \<in> set es. e \<noteq> PassSettles) \<and>
         run Z R es s = Some s' \<longrightarrow>
       syncInProgress s' \<and> passes s' = passes s \<and> batches s' = batches s \<and>
       queue_ids s' = new_Set (queue_ids s @ enqueued_ids es) \<and>
       (\<exists>s''. step Z R PassSettles s' = Some s'' \<and>
          (queuedSync s' = None \<longrightarrow>
             \<not> syncInProgress s'' \<and> passes s'' = [] \<and> batches s'' = batches s \<and>
             queuedSync s'' = None) \<and>
          (\<forall>q. queuedSync s' = Some q \<and> timeoutID q = None \<longrightarrow>
             syncInProgress s'' \<and>
             passes s'' = [new_Set (queue_ids s @ enqueued_ids es)] \<and>
             batches s'' = batches s @ [new_Set (queue_ids s @ enqueued_ids es)] \<and>
             queuedSync s'' = None) \<and>
          (\<forall>q t. queuedSync s' = Some q \<and> timeoutID q = Some t \<longrightarrow>
             \<not> syncInProgress s'' \<and> passes s'' = [] \<and> batches s'' = batches s \<and>
             queuedSync s'' = queuedSync s' \<and> timeouts s'' = timeouts s' \<and>
             (\<exists>due. timeouts s'' = [(t, due)] \<and>
                (\<forall>d. due \<le> clock s'' + d \<longrightarrow>
                   (\<exists>s3. run Z R [Elapse d, TimerFires t] s'' = Some s3 \<and>
                      batches s3 = batches s @ [new_Set (queue_ids s @ enqueued_ids es)] \<and>
                      passes s3 = [new_Set (queue_ids s @ enqueued_ids es)] \<and>
                      queuedSync s3 = None)))))"
  proof (intro allI impI)
    fix es s'
    assume h: "syncInProgress s \<and> (\<forall>e \<in> set es. e \<noteq> PassSettles) \<and>
         run Z R es s = Some s'"
    then have "reachable Z R s'" using assms reachable_run by blast
    then have inv': "engine_invariant s'" by (rule reachable_invariant)
    from h during_pass [OF inv, of es Z R s']
    have dp: "syncInProgress s'" "passes s' = passes s" "batches s' = batches s"
      "queue_ids s' = new_Set (queue_ids s @ enqueued_ids es)"
      by auto
    from settle_outcomes [OF inv' dp(1), of Z R] dp
    show "syncInProgress s' \<and> passes s' = passes s \<and> batches s' = batches s \<and>
       queue_ids s' = new_Set (queue_ids s @ enqueued_ids es) \<and>
       (\<exists>s''. step Z R PassSettles s' = Some s'' \<and>
          (queuedSync s' = None \<longrightarrow>
             \<not> syncInProgress s'' \<and> passes s'' = [] \<and> batches s'' = batches s \<and>
             queuedSync s'' = None) \<and>
          (\<forall>q. queuedSync s' = Some q \<and> timeoutID q = None \<longrightarrow>
             syncInProgress s'' \<and>
             passes s'' = [new_Set (queue_ids s @ enqueued_ids es)] \<and>
             batches s'' = batches s @ [new_Set (queue_ids s @ enqueued_ids es)] \<and>
             queuedSync s'' = None) \<and>
          (\<forall>q t. queuedSync s' = Some q \<and> timeoutID q = Some t \<longrightarrow>
             \<not> syncInProgress s'' \<and> passes s'' = [] \<and> batches s'' = batches s \<and>
             queuedSync s'' = queuedSync s' \<and> timeouts s'' = timeouts s' \<and>
             (\<exists>due. timeouts s'' = [(t, due)] \<and>
                (\<forall>d. due \<le> clock s'' + d \<longrightarrow>
                   (\<exists>s3. run Z R [Elapse d, TimerFires t] s'' = Some s3 \<and>
                      batches s3 = batches s @ [new_Set (queue_ids s @ enqueued_ids es)] \<and>
                      passes s3 = [new_Set (queue_ids s @ enqueued_ids es)] \<and>
                      queuedSync s3 = None)))))"
      by simp
  qed
  from a b c d e show ?thesis by blast
qed

theorem single_flight_witness:
  "reachable example_zotero example_remote requeued_state \<and>
   syncInProgress requeued_state \<and>
   step example_zotero example_remote (TimerFires 2) requeued_state = Some expired_state \<and>
   passes expired_state = [[1]] \<and> batches expired_state = [[1]] \<and>
   queuedSync expired_state = Some \<lparr>itemIDs = [2], timeoutID = None\<rparr> \<and>
   (\<exists>s'. step example_zotero example_remote PassSettles expired_state = Some s' \<and>
      syncInProgress s' \<and> passes s' = [[2]] \<and> batches s' = [[1], [2]] \<and>
      queuedSync s' = None) \<and>
   queuedSync running_state = None \<and>
   \<not> syncInProgress (the (step example_zotero example_remote PassSettles running_state)) \<and>
   passes (the (step example_zotero example_remote PassSettles running_state)) = [] \<and>
   syncInProgress running_state \<and>
   run example_zotero example_remote
     [Enqueue [item2], Elapse 2000, TimerFires 2, Enqueue [item3]] running_state =
     Some merged_state \<and>
   passes merged_state = [[1]] \<and> batches merged_state = [[1]] \<and>
   queue_ids merged_state = [2, 3] \<and>
   queuedSync merged_state = Some \<lparr>itemIDs = [2, 3], timeoutID = Some 3\<rparr> \<and>
   (\<exists>s'' s3. step example_zotero example_remote PassSettles merged_state = Some s'' \<and>
      \<not> syncInProgress s'' \<and> passes s'' = [] \<and> batches s'' = [[1]] \<and>
      queuedSync s'' = Some \<lparr>itemIDs = [2, 3], timeoutID = Some 3\<rparr> \<and>
      run example_zotero example_remote [Elapse 6000, TimerFires 3] s'' = Some s3 \<and>
      batches s3 = [[1], [2, 3]] \<and> passes s3 = [[2, 3]] \<and> queuedSync s3 = None) \<and>
   run example_zotero example_remote [Enqueue [item2], Elapse 2000, TimerFires 2]
     running_state = Some expired_state \<and>
   (\<exists>s''. step example_zotero example_remote PassSettles expired_state = Some s'' \<and>
      syncInProgress s'' \<and> passes s'' = [[2]] \<and> batches s'' = [[1], [2]] \<and>
      queuedSync s'' = None)"
proof -
  let ?Z = example_zotero and ?R = example_remote
  note at_expired = single_flight [OF reachable_expired, of ?Z ?R]
  note at_running = single_flight [OF reachable_running, of ?Z ?R]
  have q: "queuedSync expired_state = Some \<lparr>itemIDs = [2], timeoutID = None\<rparr>"
    "batches expired_state = [[1]]" "passes expired_state = [[1]]"
    by (simp_all add: expired_state_def)
  have rq: "syncInProgress requeued_state" by (simp add: requeued_state_def)
  have r: "queuedSync running_state = None" "syncInProgress running_state"
    "batches running_state = [[1]]" "passes running_state = [[1]]"
    "queue_ids running_state = []"
    by (simp_all add: running_state_def queue_ids_def)
  have m: "queuedSync merged_state = Some \<lparr>itemIDs = [2, 3], timeoutID = Some 3\<rparr>"
    by (simp add: merged_state_def)
  have hq: "queuedSync expired_state = Some \<lparr>itemIDs = [2], timeoutID = None\<rparr> \<and>
      timeoutID \<lparr>itemIDs = [2], timeoutID = None\<rparr> = None"
    using q(1) by simp
  from at_expired [THEN conjunct2, THEN conjunct2, THEN conjunct2, THEN conjunct1,
      rule_format, OF hq]
  obtain s1 where "step ?Z ?R PassSettles expired_state = Some s1" "syncInProgress s1"
    "passes s1 = [itemIDs \<lparr>itemIDs = [2], timeoutID = None\<rparr>]"
    "batches s1 = batches expired_state @ [itemIDs \<lparr>itemIDs = [2], timeoutID = None\<rparr>]"
    "queuedSync s1 = None"
    by blast
  then have "step ?Z ?R PassSettles expired_state = Some s1 \<and>
      syncInProgress s1 \<and> passes s1 = [[2]] \<and> batches s1 = [[1], [2]] \<and>
      queuedSync s1 = None"
    by (simp add: q)
  then have redrain: "\<exists>s'. step ?Z ?R PassSettles expired_state = Some s' \<and>
      syncInProgress s' \<and> passes s' = [[2]] \<and> batches s' = [[1], [2]] \<and>
      queuedSync s' = None" ..
  have hs: "step ?Z ?R PassSettles running_state =
        Some (the (step ?Z ?R PassSettles running_state)) \<and>
      (queuedSync running_state = None \<or>
       (\<exists>q t. queuedSync running_state = Some q \<and> timeoutID q = Some t))"
    by (simp add: running_state_def)
  from at_running [THEN conjunct2, THEN conjunct2, THEN conjunct2, THEN conjunct2,
      THEN conjunct1, rule_format, OF hs]
  have idle: "\<not> syncInProgress (the (step ?Z ?R PassSettles running_state))"
    "passes (the (step ?Z ?R PassSettles running_state)) = []"
    by simp_all
  have hm: "syncInProgress running_state \<and>
      (\<forall>e \<in> set [Enqueue [item2], Elapse 2000, TimerFires 2, Enqueue [item3]].
         e \<noteq> PassSettles) \<and>
      run ?Z ?R [Enqueue [item2], Elapse 2000, TimerFires 2, Enqueue [item3]] running_state =
        Some merged_state"
    using r(2) run_merged by simp
  note dm = at_running [THEN conjunct2, THEN conjunct2, THEN conjunct2, THEN conjunct2,
      THEN conjunct2, rule_format, OF hm]
  have ids: "new_Set (queue_ids running_state @
      enqueued_ids [Enqueue [item2], Elapse 2000, TimerFires 2, Enqueue [item3]]) = [2, 3]"
    by (simp add: r item2_def item3_def new_Set_def Set_add_def)
  have d1: "passes merged_state = [[1]]" "batches merged_state = [[1]]"
    "queue_ids merged_state = [2, 3]"
    using dm [THEN conjunct2, THEN conjunct1]
      dm [THEN conjunct2, THEN conjunct2, THEN conjunct1]
      dm [THEN conjunct2, THEN conjunct2, THEN conjunct2, THEN conjunct1]
    by (simp_all add: r item2_def item3_def new_Set_def Set_add_def)
  note dm4 = dm [THEN conjunct2, THEN conjunct2, THEN conjunct2, THEN conjunct2]
  from dm4 obtain s2 where st: "step ?Z ?R PassSettles merged_state = Some s2"
    and pend: "\<forall>q t. queuedSync merged_state = Some q \<and> timeoutID q = Some t \<longrightarrow>
       \<not> syncInProgress s2 \<and> passes s2 = [] \<and> batches s2 = batches running_state \<and>
       queuedSync s2 = queuedSync merged_state \<and> timeouts s2 = timeouts merged_state \<and>
       (\<exists>due. timeouts s2 = [(t, due)] \<and>
          (\<forall>d. due \<le> clock s2 + d \<longrightarrow>
             (\<exists>s3. run ?Z ?R [Elapse d, TimerFires t] s2 = Some s3 \<and>
                batches s3 = batches running_state @
                  [new_Set (queue_ids running_state @ enqueued_ids
                     [Enqueue [item2], Elapse 2000, TimerFires 2, Enqueue [item3]])] \<and>
                passes s3 =
                  [new_Set (queue_ids running_state @ enqueued_ids
                     [Enqueue [item2], Elapse 2000, TimerFires 2, Enqueue [item3]])] \<and>
                queuedSync s3 = None)))"
    by blast
  have hp: "queuedSync merged_state = Some \<lparr>itemIDs = [2, 3], timeoutID = Some 3\<rparr> \<and>
      timeoutID \<lparr>itemIDs = [2, 3], timeoutID = Some 3\<rparr> = Some 3"
    using m by simp
  note p = pend [rule_format, OF hp]
  from p have p1: "\<not> syncInProgress s2" "passes s2 = []" "batches s2 = [[1]]"
    "queuedSync s2 = Some \<lparr>itemIDs = [2, 3], timeoutID = Some 3\<rparr>"
    "timeouts s2 = [(3, 6000)]"
    by (simp_all add: r m merged_state_def)
  from p obtain due where due: "timeouts s2 = [(3, due)]"
    and fire: "\<forall>d. due \<le> clock s2 + d \<longrightarrow>
             (\<exists>s3. run ?Z ?R [Elapse d, TimerFires 3] s2 = Some s3 \<and>
                batches s3 = batches running_state @
                  [new_Set (queue_ids running_state @ enqueued_ids
                     [Enqueue [item2], Elapse 2000, TimerFires 2, Enqueue [item3]])] \<and>
                passes s3 =
                  [new_Set (queue_ids running_state @ enqueued_ids
                     [Enqueue [item2], Elapse 2000, TimerFires 2, Enqueue [item3]])] \<and>
                queuedSync s3 = None)"
    by blast
  from due p1(5) have "due \<le> clock s2 + 6000" by simp
  from fire [rule_format, OF this] obtain s3 where
    "run ?Z ?R [Elapse 6000, TimerFires 3] s2 = Some s3"
    "batches s3 = batches running_state @
       [new_Set (queue_ids running_state @ enqueued_ids
          [Enqueue [item2], Elapse 2000, TimerFires 2, Enqueue [item3]])]"
    "passes s3 =
       [new_Set (queue_ids running_state @ enqueued_ids
          [Enqueue [item2], Elapse 2000, TimerFires 2, Enqueue [item3]])]"
    "queuedSync s3 = None"
    by blast
  then have "run ?Z ?R [Elapse 6000, TimerFires 3] s2 = Some s3 \<and>
      batches s3 = [[1], [2, 3]] \<and> passes s3 = [[2, 3]] \<and> queuedSync s3 = None"
    unfolding ids by (simp add: r)
  with st p1 have "step ?Z ?R PassSettles merged_state = Some s2 \<and>
      \<not> syncInProgress s2 \<and> passes s2 = [] \<and> batches s2 = [[1]] \<and>
      queuedSync s2 = Some \<lparr>itemIDs = [2, 3], timeoutID = Some 3\<rparr> \<and>
      run ?Z ?R [Elapse 6000, TimerFires 3] s2 = Some s3 \<and>
      batches s3 = [[1], [2, 3]] \<and> passes s3 = [[2, 3]] \<and> queuedSync s3 = None"
    by simp
  then have later: "\<exists>s'' s3. step ?Z ?R PassSettles merged_state = Some s'' \<and>
      \<not> syncInProgress s'' \<and> passes s'' = [] \<and> batches s'' = [[1]] \<and>
      queuedSync s'' = Some \<lparr>itemIDs = [2, 3], timeoutID = Some 3\<rparr> \<and>
      run ?Z ?R [Elapse 6000, TimerFires 3] s'' = Some s3 \<and>
      batches s3 = [[1], [2, 3]] \<and> passes s3 = [[2, 3]] \<and> queuedSync s3 = None"
    by blast
  show ?thesis
    by (intro conjI reachable_requeued rq step_expired q(3) q(2) q(1) redrain r(1) idle r(2)
        run_merged d1 m later run_expired)
qed

text \<open>
  The claim as stated fails when the pass settles before the timeout of the queue has
  fired. Item 2 is enqueued during the pass of item 1, and the pass settles while timeout 2
  is pending: the re-drain check finds a \<open>timeoutID\<close>, so the flag goes down with item 2
  still queued and no batch started for it.
\<close>

theorem settle_before_timer_counterexample:
  "run example_zotero example_remote
     [Enqueue [item1], Elapse 2000, TimerFires 1, Enqueue [item2], Elapse 2000]
     initial_state = Some requeued_state \<and>
   syncInProgress requeued_state \<and> batches requeued_state = [[1]] \<and>
   queuedSync requeued_state = Some \<lparr>itemIDs = [2], timeoutID = Some 2\<rparr> \<and>
   map_option syncInProgress (step example_zotero example_remote PassSettles requeued_state) =
     Some False \<and>
   map_option batches (step example_zotero example_remote PassSettles requeued_state) =
     Some [[1]] \<and>
   map_option queuedSync (step example_zotero example_remote PassSettles requeued_state) =
     Some (Some \<lparr>itemIDs = [2], timeoutID = Some 2\<rparr>)"
proof -
  have r: "run example_zotero example_remote
     [Enqueue [item1], Elapse 2000, TimerFires 1, Enqueue [item2], Elapse 2000]
     initial_state = Some requeued_state"
    by (simp add: engine_defs requeued_state_def item1_def item2_def empty_log_def)
  show ?thesis
    by (intro conjI r settle_requeued) (simp_all add: requeued_state_def)
qed


section \<open>The debounce window\<close>

text \<open>
  Claim C1, as amended. In a reachable state, a call of \<open>enqueueItemsToSync\<close> with at
  least one item leaves a queue that holds the identifiers queued before followed by the
  new ones, without duplicates, whether the timeout of the old queue was pending, had
  fired, or there was no queue; it leaves exactly one pending timeout, a fresh one that is
  due \<open>SYNC_DEBOUNCE_MS\<close> after the call; and it starts no batch. A call with no item
  changes nothing. Along every run the identifiers queued at the start and enqueued since
  are cut into consecutive segments: each batch handed to \<open>saveItemsToNotion\<close> is one
  segment without its duplicates, in order, and the rest is the queue, so nothing is lost.
  A run of calls and waiting never blocks. For a window that starts with no queue, in
  which no timeout fires and at least one identifier is enqueued: no batch is started in
  the window; the queue holds the identifiers enqueued in it, without duplicates; one
  timeout is pending, due \<open>SYNC_DEBOUNCE_MS\<close> after the last call that enqueued
  something. When that timeout fires with no pass running, exactly one batch is handed
  over, equal to the queue. When it fires while a pass is running, no batch is started and
  the queue stays. While a pass is running no batch is started at all, and the queue
  collects everything that is enqueued, across any number of timeouts.
\<close>

theorem debounce_window:
  assumes "reachable Z R s"
  shows "(\<forall>items. items \<noteq> [] \<longrightarrow>
       (\<exists>s'. step Z R (Enqueue items) s = Some s' \<and>
          queuedSync s' =
            Some \<lparr>itemIDs = new_Set (queue_ids s @ map item_id items),
                  timeoutID = Some (next_timeout s)\<rparr> \<and>
          timeouts s' = [(next_timeout s, clock s + SYNC_DEBOUNCE_MS)] \<and>
          next_timeout s \<notin> fst ` set (timeouts s) \<and>
          batches s' = batches s \<and> passes s' = passes s \<and>
          syncInProgress s' = syncInProgress s)) \<and>
    step Z R (Enqueue []) s = Some s \<and>
    (\<forall>es s'. run Z R es s = Some s' \<longrightarrow>
       (\<exists>segs rest. queue_ids s @ enqueued_ids es = concat segs @ rest \<and>
          batches s' = batches s @ map new_Set segs \<and> queue_ids s' = new_Set rest)) \<and>
    (\<forall>es. (\<forall>e \<in> set es. window_event e) \<longrightarrow> (\<exists>s'. run Z R es s = Some s')) \<and>
    (\<forall>es s'. queuedSync s = None \<and> (\<forall>e \<in> set es. quiet_event e) \<and>
         enqueued_ids es \<noteq> [] \<and> run Z R es s = Some s' \<longrightarrow>
       distinct (new_Set (enqueued_ids es)) \<and>
       set (new_Set (enqueued_ids es)) = set (enqueued_ids es) \<and>
       batches s' = batches s \<and>
       (\<exists>t. queuedSync s' =
              Some \<lparr>itemIDs = new_Set (enqueued_ids es), timeoutID = Some t\<rparr> \<and>
          timeouts s' = [(t, last_enqueue (clock s) (clock s) es + SYNC_DEBOUNCE_MS)] \<and>
          (\<forall>d. last_enqueue (clock s) (clock s) es + SYNC_DEBOUNCE_MS \<le> clock s' + d \<longrightarrow>
             (\<not> syncInProgress s' \<longrightarrow>
                (\<exists>s''. run Z R [Elapse d, TimerFires t] s' = Some s'' \<and>
                   batches s'' = batches s @ [new_Set (enqueued_ids es)] \<and>
                   passes s'' = [new_Set (enqueued_ids es)] \<and>
                   queuedSync s'' = None \<and> timeouts s'' = [])) \<and>
             (syncInProgress s' \<longrightarrow>
                (\<exists>s''. run Z R [Elapse d, TimerFires t] s' = Some s'' \<and>
                   batches s'' = batches s \<and> passes s'' = passes s' \<and>
                   queuedSync s'' =
                     Some \<lparr>itemIDs = new_Set (enqueued_ids es), timeoutID = None\<rparr> \<and>
                   timeouts s'' = []))))) \<and>
    (\<forall>es s'. syncInProgress s \<and> (\<forall>e \<in> set es. e \<noteq> PassSettles) \<and>
         run Z R es s = Some s' \<longrightarrow>
       batches s' = batches s \<and>
       queue_ids s' = new_Set (queue_ids s @ enqueued_ids es))"
proof -
  from assms have inv: "engine_invariant s" by (rule reachable_invariant)
  have a: "\<forall>items. items \<noteq> [] \<longrightarrow>
       (\<exists>s'. step Z R (Enqueue items) s = Some s' \<and>
          queuedSync s' =
            Some \<lparr>itemIDs = new_Set (queue_ids s @ map item_id items),
                  timeoutID = Some (next_timeout s)\<rparr> \<and>
          timeouts s' = [(next_timeout s, clock s + SYNC_DEBOUNCE_MS)] \<and>
          next_timeout s \<notin> fst ` set (timeouts s) \<and>
          batches s' = batches s \<and> passes s' = passes s \<and>
          syncInProgress s' = syncInProgress s)"
    using fresh_timeout [OF inv] by (simp add: enqueue_any [OF inv])
  have b: "step Z R (Enqueue []) s = Some s"
    by (simp add: enqueueItemsToSync_def)
  have c: "\<forall>es s'. run Z R es s = Some s' \<longrightarrow>
       (\<exists>segs rest. queue_ids s @ enqueued_ids es = concat segs @ rest \<and>
          batches s' = batches s @ map new_Set segs \<and> queue_ids s' = new_Set rest)"
    using run_segments [OF inv] by blast
  have d: "\<forall>es. (\<forall>e \<in> set es. window_event e) \<longrightarrow> (\<exists>s'. run Z R es s = Some s')"
    using run_calls_total by blast
  have e: "\<forall>es s'. queuedSync s = None \<and> (\<forall>e \<in> set es. quiet_event e) \<and>
         enqueued_ids es \<noteq> [] \<and> run Z R es s = Some s' \<longrightarrow>
       distinct (new_Set (enqueued_ids es)) \<and>
       set (new_Set (enqueued_ids es)) = set (enqueued_ids es) \<and>
       batches s' = batches s \<and>
       (\<exists>t. queuedSync s' =
              Some \<lparr>itemIDs = new_Set (enqueued_ids es), timeoutID = Some t\<rparr> \<and>
          timeouts s' = [(t, last_enqueue (clock s) (clock s) es + SYNC_DEBOUNCE_MS)] \<and>
          (\<forall>d. last_enqueue (clock s) (clock s) es + SYNC_DEBOUNCE_MS \<le> clock s' + d \<longrightarrow>
             (\<not> syncInProgress s' \<longrightarrow>
                (\<exists>s''. run Z R [Elapse d, TimerFires t] s' = Some s'' \<and>
                   batches s'' = batches s @ [new_Set (enqueued_ids es)] \<and>
                   passes s'' = [new_Set (enqueued_ids es)] \<and>
                   queuedSync s'' = None \<and> timeouts s'' = [])) \<and>
             (syncInProgress s' \<longrightarrow>
                (\<exists>s''. run Z R [Elapse d, TimerFires t] s' = Some s'' \<and>
                   batches s'' = batches s \<and> passes s'' = passes s' \<and>
                   queuedSync s'' =
                     Some \<lparr>itemIDs = new_Set (enqueued_ids es), timeoutID = None\<rparr> \<and>
                   timeouts s'' = []))))"
  proof (intro allI impI)
    fix es s'
    let ?ids = "new_Set (enqueued_ids es)"
    let ?due = "last_enqueue (clock s) (clock s) es + SYNC_DEBOUNCE_MS"
    assume h: "queuedSync s = None \<and> (\<forall>e \<in> set es. quiet_event e) \<and>
         enqueued_ids es \<noteq> [] \<and> run Z R es s = Some s'"
    then have "reachable Z R s'" using assms reachable_run by blast
    then have inv': "engine_invariant s'" by (rule reachable_invariant)
    from h quiet_start [OF inv, of es Z R s' "clock s"]
    obtain t where q: "queuedSync s' = Some \<lparr>itemIDs = ?ids, timeoutID = Some t\<rparr>"
      and tm: "timeouts s' = [(t, ?due)]" and bs: "batches s' = batches s"
      by blast
    have fire: "\<forall>d. ?due \<le> clock s' + d \<longrightarrow>
             (\<not> syncInProgress s' \<longrightarrow>
                (\<exists>s''. run Z R [Elapse d, TimerFires t] s' = Some s'' \<and>
                   batches s'' = batches s @ [?ids] \<and> passes s'' = [?ids] \<and>
                   queuedSync s'' = None \<and> timeouts s'' = [])) \<and>
             (syncInProgress s' \<longrightarrow>
                (\<exists>s''. run Z R [Elapse d, TimerFires t] s' = Some s'' \<and>
                   batches s'' = batches s \<and> passes s'' = passes s' \<and>
                   queuedSync s'' = Some \<lparr>itemIDs = ?ids, timeoutID = None\<rparr> \<and>
                   timeouts s'' = []))"
    proof (intro allI impI conjI)
      fix d assume d: "?due \<le> clock s' + d" and idle: "\<not> syncInProgress s'"
      then have "passes s' = []" using inv' by (simp add: engine_invariant_def)
      with fire_idle [OF q tm d idle, of Z R] bs
      show "\<exists>s''. run Z R [Elapse d, TimerFires t] s' = Some s'' \<and>
                   batches s'' = batches s @ [?ids] \<and> passes s'' = [?ids] \<and>
                   queuedSync s'' = None \<and> timeouts s'' = []"
        by auto
    next
      fix d assume d: "?due \<le> clock s' + d" and busy: "syncInProgress s'"
      with fire_busy [OF q tm d busy, of Z R] bs
      show "\<exists>s''. run Z R [Elapse d, TimerFires t] s' = Some s'' \<and>
                   batches s'' = batches s \<and> passes s'' = passes s' \<and>
                   queuedSync s'' = Some \<lparr>itemIDs = ?ids, timeoutID = None\<rparr> \<and>
                   timeouts s'' = []"
        by auto
    qed
    from q tm bs fire distinct_new_Set [of "enqueued_ids es"] set_new_Set [of "enqueued_ids es"]
    show "distinct ?ids \<and> set ?ids = set (enqueued_ids es) \<and> batches s' = batches s \<and>
       (\<exists>t. queuedSync s' = Some \<lparr>itemIDs = ?ids, timeoutID = Some t\<rparr> \<and>
          timeouts s' = [(t, ?due)] \<and>
          (\<forall>d. ?due \<le> clock s' + d \<longrightarrow>
             (\<not> syncInProgress s' \<longrightarrow>
                (\<exists>s''. run Z R [Elapse d, TimerFires t] s' = Some s'' \<and>
                   batches s'' = batches s @ [?ids] \<and> passes s'' = [?ids] \<and>
                   queuedSync s'' = None \<and> timeouts s'' = [])) \<and>
             (syncInProgress s' \<longrightarrow>
                (\<exists>s''. run Z R [Elapse d, TimerFires t] s' = Some s'' \<and>
                   batches s'' = batches s \<and> passes s'' = passes s' \<and>
                   queuedSync s'' = Some \<lparr>itemIDs = ?ids, timeoutID = None\<rparr> \<and>
                   timeouts s'' = []))))"
      by blast
  qed
  have f: "\<forall>es s'. syncInProgress s \<and> (\<forall>e \<in> set es. e \<noteq> PassSettles) \<and>
         run Z R es s = Some s' \<longrightarrow>
       batches s' = batches s \<and>
       queue_ids s' = new_Set (queue_ids s @ enqueued_ids es)"
    using during_pass [OF inv] by blast
  from a b c d e f show ?thesis by blast
qed

theorem debounce_window_witness:
  "reachable example_zotero example_remote expired_state \<and>
   queuedSync expired_state = Some \<lparr>itemIDs = [2], timeoutID = None\<rparr> \<and>
   (\<exists>s'. step example_zotero example_remote (Enqueue [item3]) expired_state = Some s' \<and>
      queuedSync s' = Some \<lparr>itemIDs = [2, 3], timeoutID = Some 3\<rparr> \<and>
      timeouts s' = [(3, 6000)]) \<and>
   run example_zotero example_remote [Enqueue [item1], Elapse 2000, TimerFires 1]
     initial_state = Some running_state \<and>
   (\<exists>segs rest. [1] = concat segs @ rest \<and> batches running_state = map new_Set segs \<and>
      queue_ids running_state = new_Set rest) \<and>
   enqueued_ids example_window = [1, 2, 2, 3] \<and>
   run example_zotero example_remote example_window initial_state = Some window_state \<and>
   queuedSync window_state = Some \<lparr>itemIDs = [1, 2, 3], timeoutID = Some 2\<rparr> \<and>
   timeouts window_state = [(2, 2500)] \<and> \<not> syncInProgress window_state \<and>
   (\<exists>s''. run example_zotero example_remote [Elapse 1900, TimerFires 2] window_state =
        Some s'' \<and>
      batches s'' = [[1, 2, 3]] \<and> passes s'' = [[1, 2, 3]] \<and> queuedSync s'' = None) \<and>
   run example_zotero example_remote [Enqueue [item2], Elapse 2000] running_state =
     Some requeued_state \<and>
   syncInProgress requeued_state \<and>
   (\<exists>s''. run example_zotero example_remote [Elapse 0, TimerFires 2] requeued_state =
        Some s'' \<and>
      batches s'' = [[1]] \<and>
      queuedSync s'' = Some \<lparr>itemIDs = [2], timeoutID = None\<rparr>) \<and>
   run example_zotero example_remote
     [Enqueue [item2], Elapse 2000, TimerFires 2, Enqueue [item3]] running_state =
     Some merged_state \<and>
   batches merged_state = [[1]] \<and> queue_ids merged_state = [2, 3]"
proof -
  let ?Z = example_zotero and ?R = example_remote
  note at_expired = debounce_window [OF reachable_expired, of ?Z ?R]
  note at_initial = debounce_window [OF reachable_initial, of ?Z ?R]
  note at_running = debounce_window [OF reachable_running, of ?Z ?R]
  have x: "queuedSync expired_state = Some \<lparr>itemIDs = [2], timeoutID = None\<rparr>"
    "queue_ids expired_state = [2]" "next_timeout expired_state = 3"
    "clock expired_state = 4000"
    by (simp_all add: expired_state_def queue_ids_def)
  have ne3: "[item3] \<noteq> []" by simp
  from at_expired [THEN conjunct1, rule_format, OF ne3] obtain s1 where
    "step ?Z ?R (Enqueue [item3]) expired_state = Some s1"
    "queuedSync s1 =
       Some \<lparr>itemIDs = new_Set (queue_ids expired_state @ map item_id [item3]),
             timeoutID = Some (next_timeout expired_state)\<rparr>"
    "timeouts s1 = [(next_timeout expired_state, clock expired_state + SYNC_DEBOUNCE_MS)]"
    by blast
  then have "step ?Z ?R (Enqueue [item3]) expired_state = Some s1 \<and>
      queuedSync s1 = Some \<lparr>itemIDs = [2, 3], timeoutID = Some 3\<rparr> \<and>
      timeouts s1 = [(3, 6000)]"
    by (simp add: x item3_def new_Set_def Set_add_def SYNC_DEBOUNCE_MS_def)
  then have a: "\<exists>s'. step ?Z ?R (Enqueue [item3]) expired_state = Some s' \<and>
      queuedSync s' = Some \<lparr>itemIDs = [2, 3], timeoutID = Some 3\<rparr> \<and>
      timeouts s' = [(3, 6000)]" ..
  have "\<exists>segs rest.
      queue_ids initial_state @ enqueued_ids [Enqueue [item1], Elapse 2000, TimerFires 1] =
        concat segs @ rest \<and>
      batches running_state = batches initial_state @ map new_Set segs \<and>
      queue_ids running_state = new_Set rest"
    using at_initial [THEN conjunct2, THEN conjunct2, THEN conjunct1, rule_format,
        OF run_running] .
  then have c: "\<exists>segs rest. [1] = concat segs @ rest \<and>
      batches running_state = map new_Set segs \<and> queue_ids running_state = new_Set rest"
    by (simp add: initial_state_def queue_ids_def item1_def)
  have i: "queuedSync initial_state = None" "clock initial_state = 0"
    "batches initial_state = []"
    by (simp_all add: initial_state_def)
  have w: "\<forall>e \<in> set example_window. quiet_event e" "enqueued_ids example_window \<noteq> []"
    by (simp_all add: example_window_def item1_def)
  have ws: "queuedSync window_state = Some \<lparr>itemIDs = [1, 2, 3], timeoutID = Some 2\<rparr>"
    "timeouts window_state = [(2, 2500)]" "\<not> syncInProgress window_state"
    "clock window_state = 600"
    by (simp_all add: window_state_def)
  have hyp: "queuedSync initial_state = None \<and> (\<forall>e \<in> set example_window. quiet_event e) \<and>
      enqueued_ids example_window \<noteq> [] \<and>
      run ?Z ?R example_window initial_state = Some window_state"
    using i(1) w run_window by blast
  note win = at_initial [THEN conjunct2, THEN conjunct2, THEN conjunct2, THEN conjunct2,
      THEN conjunct1, rule_format, OF hyp]
  from win obtain t where e1:
    "queuedSync window_state =
       Some \<lparr>itemIDs = new_Set (enqueued_ids example_window), timeoutID = Some t\<rparr>"
    and fire: "\<forall>d. last_enqueue (clock initial_state) (clock initial_state) example_window +
          SYNC_DEBOUNCE_MS \<le> clock window_state + d \<longrightarrow>
       (\<not> syncInProgress window_state \<longrightarrow>
          (\<exists>s''. run ?Z ?R [Elapse d, TimerFires t] window_state = Some s'' \<and>
             batches s'' = batches initial_state @ [new_Set (enqueued_ids example_window)] \<and>
             passes s'' = [new_Set (enqueued_ids example_window)] \<and>
             queuedSync s'' = None \<and> timeouts s'' = []))"
    by blast
  from e1 ws(1) have t: "t = 2" by simp
  have due: "last_enqueue (clock initial_state) (clock initial_state) example_window +
      SYNC_DEBOUNCE_MS \<le> clock window_state + 1900"
    by (simp add: i ws example_window_facts SYNC_DEBOUNCE_MS_def)
  from fire [rule_format, OF due ws(3)] obtain s2 where
    "run ?Z ?R [Elapse 1900, TimerFires t] window_state = Some s2"
    "batches s2 = batches initial_state @ [new_Set (enqueued_ids example_window)]"
    "passes s2 = [new_Set (enqueued_ids example_window)]" "queuedSync s2 = None"
    by blast
  then have "run ?Z ?R [Elapse 1900, TimerFires 2] window_state = Some s2 \<and>
      batches s2 = [[1, 2, 3]] \<and> passes s2 = [[1, 2, 3]] \<and> queuedSync s2 = None"
    unfolding t i example_window_facts(3) by simp
  then have e: "\<exists>s''. run ?Z ?R [Elapse 1900, TimerFires 2] window_state = Some s'' \<and>
      batches s'' = [[1, 2, 3]] \<and> passes s'' = [[1, 2, 3]] \<and> queuedSync s'' = None" ..
  have r: "queuedSync running_state = None" "clock running_state = 2000"
    "batches running_state = [[1]]" "syncInProgress running_state"
    by (simp_all add: running_state_def)
  have rq: "queuedSync requeued_state = Some \<lparr>itemIDs = [2], timeoutID = Some 2\<rparr>"
    "syncInProgress requeued_state" "clock requeued_state = 4000"
    by (simp_all add: requeued_state_def)
  have w2: "\<forall>e \<in> set [Enqueue [item2], Elapse 2000]. quiet_event e"
    "enqueued_ids [Enqueue [item2], Elapse 2000] = [2]"
    "enqueued_ids [Enqueue [item2], Elapse 2000] \<noteq> []"
    "new_Set [2 :: nat] = [2]"
    "last_enqueue 2000 2000 [Enqueue [item2], Elapse 2000] = 2000"
    by (simp_all add: item2_def new_Set_def Set_add_def)
  have hyp2: "queuedSync running_state = None \<and>
      (\<forall>e \<in> set [Enqueue [item2], Elapse 2000]. quiet_event e) \<and>
      enqueued_ids [Enqueue [item2], Elapse 2000] \<noteq> [] \<and>
      run ?Z ?R [Enqueue [item2], Elapse 2000] running_state = Some requeued_state"
    using r(1) w2(1,3) run_requeued by blast
  note win2 = at_running [THEN conjunct2, THEN conjunct2, THEN conjunct2, THEN conjunct2,
      THEN conjunct1, rule_format, OF hyp2]
  from win2 obtain u where f1:
    "queuedSync requeued_state =
       Some \<lparr>itemIDs = new_Set (enqueued_ids [Enqueue [item2], Elapse 2000]),
             timeoutID = Some u\<rparr>"
    and busy: "\<forall>d. last_enqueue (clock running_state) (clock running_state)
            [Enqueue [item2], Elapse 2000] + SYNC_DEBOUNCE_MS \<le> clock requeued_state + d \<longrightarrow>
       (syncInProgress requeued_state \<longrightarrow>
          (\<exists>s''. run ?Z ?R [Elapse d, TimerFires u] requeued_state = Some s'' \<and>
             batches s'' = batches running_state \<and> passes s'' = passes requeued_state \<and>
             queuedSync s'' =
               Some \<lparr>itemIDs = new_Set (enqueued_ids [Enqueue [item2], Elapse 2000]),
                     timeoutID = None\<rparr> \<and>
             timeouts s'' = []))"
    by blast
  from f1 rq(1) have u: "u = 2" by simp
  have due2: "last_enqueue (clock running_state) (clock running_state)
      [Enqueue [item2], Elapse 2000] + SYNC_DEBOUNCE_MS \<le> clock requeued_state + 0"
    by (simp add: r rq w2 SYNC_DEBOUNCE_MS_def)
  from busy [rule_format, OF due2 rq(2)] obtain s3 where
    "run ?Z ?R [Elapse 0, TimerFires u] requeued_state = Some s3"
    "batches s3 = batches running_state"
    "queuedSync s3 =
       Some \<lparr>itemIDs = new_Set (enqueued_ids [Enqueue [item2], Elapse 2000]),
             timeoutID = None\<rparr>"
    by blast
  then have "run ?Z ?R [Elapse 0, TimerFires 2] requeued_state = Some s3 \<and>
      batches s3 = [[1]] \<and> queuedSync s3 = Some \<lparr>itemIDs = [2], timeoutID = None\<rparr>"
    unfolding u r w2(2) w2(4) by simp
  then have f: "\<exists>s''. run ?Z ?R [Elapse 0, TimerFires 2] requeued_state = Some s'' \<and>
      batches s'' = [[1]] \<and> queuedSync s'' = Some \<lparr>itemIDs = [2], timeoutID = None\<rparr>" ..
  have hyp3: "syncInProgress running_state \<and>
      (\<forall>e \<in> set [Enqueue [item2], Elapse 2000, TimerFires 2, Enqueue [item3]].
         e \<noteq> PassSettles) \<and>
      run ?Z ?R [Enqueue [item2], Elapse 2000, TimerFires 2, Enqueue [item3]] running_state =
        Some merged_state"
    using r(4) run_merged by simp
  have "batches merged_state = batches running_state \<and>
      queue_ids merged_state = new_Set (queue_ids running_state @
        enqueued_ids [Enqueue [item2], Elapse 2000, TimerFires 2, Enqueue [item3]])"
    using at_running [THEN conjunct2, THEN conjunct2, THEN conjunct2, THEN conjunct2,
        THEN conjunct2, rule_format, OF hyp3] .
  then have g: "batches merged_state = [[1]]" "queue_ids merged_state = [2, 3]"
    by (simp_all add: r queue_ids_def item2_def item3_def new_Set_def Set_add_def)
  show ?thesis
    by (intro conjI reachable_expired x(1) a run_running c example_window_facts(2) run_window
        ws(1-3) e run_requeued rq(2) f run_merged g)
qed

text \<open>
  The claim as stated fails in two ways. A call with no item returns before it touches the
  timer: with item 1 queued at time 0 and an empty call at time 1000, the timeout with
  handle 1 is still pending and still due at time 2000. And a window need not get a batch
  of its own: while the pass of item 1 is running, item 2 is enqueued and its timeout
  fires, then item 3 is enqueued and its timeout fires; when the pass settles, the two
  windows come out as the one batch \<open>[2, 3]\<close>.
\<close>

theorem enqueue_counterexample:
  "run example_zotero example_remote [Enqueue [item1], Elapse 1000] initial_state =
     Some pending_state \<and>
   timeouts pending_state = [(1, 2000)] \<and>
   clock pending_state = 1000 \<and>
   step example_zotero example_remote (Enqueue []) pending_state = Some pending_state \<and>
   run example_zotero example_remote [Enqueue [item1], Elapse 2000, TimerFires 1]
     initial_state = Some running_state \<and>
   run example_zotero example_remote [Enqueue [item2], Elapse 2000, TimerFires 2]
     running_state = Some expired_state \<and>
   batches running_state = [[1]] \<and> batches expired_state = [[1]] \<and>
   map_option batches
     (run example_zotero example_remote
        [Enqueue [item2], Elapse 2000, TimerFires 2, Enqueue [item3], Elapse 2000,
         TimerFires 3, PassSettles] running_state) = Some [[1], [2, 3]]"
  by (intro conjI run_pending run_running run_expired run_two_windows)
    (simp_all add: pending_state_def enqueueItemsToSync_def running_state_def
      expired_state_def)


section \<open>A pass stops at the first error\<close>

lemma saveItemToNotion_log:
  assumes "saveItemToNotion Z R item (n, L) = (r, n', L')"
  shows "attempts L' = attempts L @ [item_id item] \<and> progress L' = progress L \<and>
    logged L' = logged L \<and> requests L' = requests L"
  using assms
  by (auto simp: saveItemToNotion_def Let_def split: prod.splits sum.splits option.splits)

lemma saveItemToNotion_success:
  assumes "saveItemToNotion Z R item (n, L) = (None, n', L')"
  shows "tagged L' = tagged L @ [item_id item]"
  using assms
  by (auto simp: saveItemToNotion_def Let_def split: prod.splits sum.splits option.splits)

lemma saveItemToNotion_failure:
  assumes "saveItemToNotion Z R item (n, L) = (Some e, n', L')"
  shows "linked L' = linked L \<and>
    (tagged L' = tagged L \<or> tagged L' = tagged L @ [item_id item])"
  using assms
  by (auto simp: saveItemToNotion_def Let_def split: prod.splits sum.splits option.splits)

lemma saveLoop_success:
  "saveLoop Z R len k items (n, L) = (None, n', L') \<Longrightarrow>
   attempts L' = attempts L @ map item_id items \<and>
   tagged L' = tagged L @ map item_id items \<and> logged L' = logged L"
proof (induction items arbitrary: k n L)
  case Nil
  then show ?case by simp
next
  case (Cons item items)
  let ?L0 = "L\<lparr>progress := progress L @ [setText (Suc k) len]\<rparr>"
  from Cons.prems obtain n1 L1 where
    one: "saveItemToNotion Z R item (n, ?L0) = (None, n1, L1)"
    and rest: "saveLoop Z R len (Suc k) items
        (n1, L1\<lparr>progress := progress L1 @ [setProgress (Suc k) len]\<rparr>) = (None, n', L')"
    by (auto split: prod.splits option.splits)
  from saveItemToNotion_log [OF one] saveItemToNotion_success [OF one] Cons.IH [OF rest]
  show ?case by simp
qed

lemma saveLoop_append:
  "saveLoop Z R len k (pre @ items) st =
     (case saveLoop Z R len k pre st of
        (Some e, st') \<Rightarrow> (Some e, st')
      | (None, st') \<Rightarrow> saveLoop Z R len (k + length pre) items st')"
proof (induction pre arbitrary: k st)
  case Nil
  then show ?case by simp
next
  case (Cons item pre)
  obtain n L where st: "st = (n, L)" by (cases st)
  show ?case
    by (simp add: st Cons.IH split: prod.splits option.splits)
qed

lemma saveLoop_abort:
  assumes "saveLoop Z R len k pre (n, L) = (None, n1, L1)"
    and "saveItemToNotion Z R item
           (n1, L1\<lparr>progress := progress L1 @ [setText (Suc (k + length pre)) len]\<rparr>) =
         (Some e, n2, L2)"
  shows "saveLoop Z R len k (pre @ item # post) (n, L) = (Some e, n2, L2)"
  using assms by (simp add: saveLoop_append)

lemma buildItemProperties_hit:
  "databaseProperties n = Some db \<Longrightarrow>
   buildItemProperties R item n = (Inr (mapItemProperties db item), n)"
  by (simp add: buildItemProperties_def getDatabaseProperties_hit)

lemma example_service:
  "pages_update example_remote rs (ascii ''R9'') ps =
     Inl (APIResponseError (ascii ''rate_limited''))"
  "ascii ''rate_limited'' \<noteq> ObjectNotFound"
  "pages_update example_remote rs (ascii ''R5'') ps =
     Inr \<lparr>response_id = ascii ''R5'', response_url = None\<rparr>"
  "pages_create example_remote rs d ps =
     Inr \<lparr>response_id = ascii ''R2'',
          response_url = Some (ascii ''https://www.notion.so/R2'')\<rparr>"
  by (simp_all add: example_remote_def ObjectNotFound_def ascii_def)

lemma example_ids:
  "\<not> truthy (getNotionPageID example_item)"
  "truthy (getNotionPageID (stored_item (ascii ''R9'')))"
  "the (getNotionPageID (stored_item (ascii ''R9''))) = ascii ''R9''"
  "truthy (getNotionPageID (stored_item (ascii ''R5'')))"
  "the (getNotionPageID (stored_item (ascii ''R5''))) = ascii ''R5''"
  by (simp_all add: example_item_def stored_item_def ascii_def)

lemma example_save_new:
  assumes "buildItemProperties example_remote example_item n = (Inr P, n1)"
  shows "saveItemToDatabase example_remote example_item n =
    (Inr \<lparr>response_id = ascii ''R2'',
          response_url = Some (ascii ''https://www.notion.so/R2'')\<rparr>,
     n1\<lparr>sent := sent n1 @ [Create (databaseID n1) P]\<rparr>)"
  by (simp add: saveItemToDatabase_built [OF assms] example_ids example_service
      pages_create_call_def)

lemma example_save_R9:
  assumes "buildItemProperties example_remote (stored_item (ascii ''R9'')) n = (Inr P, n1)"
  shows "saveItemToDatabase example_remote (stored_item (ascii ''R9'')) n =
    (Inl (APIResponseError (ascii ''rate_limited'')),
     n1\<lparr>sent := sent n1 @ [Update (ascii ''R9'') P]\<rparr>)"
  by (simp add: saveItemToDatabase_built [OF assms] example_ids example_service)

lemma example_save_R5:
  assumes "buildItemProperties example_remote (stored_item (ascii ''R5'')) n = (Inr P, n1)"
  shows "saveItemToDatabase example_remote (stored_item (ascii ''R5'')) n =
    (Inr \<lparr>response_id = ascii ''R5'', response_url = None\<rparr>,
     n1\<lparr>sent := sent n1 @ [Update (ascii ''R5'') P]\<rparr>)"
  by (simp add: saveItemToDatabase_built [OF assms] example_ids example_service)

lemma example_host:
  "List.map_filter (Items_get example_zotero) [1, 2, 3] = [item1] @ item2 # [item3]"
  "List.map_filter (Items_get example_zotero) [3] = [item3]"
  "getNotion example_zotero rs = Inr (new_Notion (ascii ''db'') rs)"
  "saveNotionTag example_zotero i = None"
  "saveNotionLinkAttachment example_zotero i url = None"
  by (simp_all add: example_zotero_def List.map_filter_simps item1_def item2_def item3_def
      getNotion_def ascii_def)

lemma example_first_item:
  "saveLoop example_zotero example_remote (length ([item1] @ item2 # [item3])) 0 [item1]
     (new_Notion (ascii ''db'') [],
      empty_log\<lparr>progress := progress empty_log @
        [changeHeadline, show_window, new_ItemProgress]\<rparr>) =
   (None,
    \<lparr>databaseID = ascii ''db'', databaseProperties = Some example_schema,
     sent = [Retrieve (ascii ''db''),
             Create (ascii ''db'') (mapItemProperties example_schema example_item)]\<rparr>,
    \<lparr>requests = [], attempts = [1], tagged = [1],
     linked = [(1, ascii ''https://www.notion.so/R2'')],
     progress = [changeHeadline, show_window, new_ItemProgress, setText 1 3, setProgress 1 3],
     logged = []\<rparr>)"
  by (simp add: saveItemToNotion_def item1_def example_save_new [OF example_build]
      example_host empty_log_def)

lemma example_second_item:
  "saveItemToNotion example_zotero example_remote item2
     (\<lparr>databaseID = ascii ''db'', databaseProperties = Some example_schema,
       sent = [Retrieve (ascii ''db''),
               Create (ascii ''db'') (mapItemProperties example_schema example_item)]\<rparr>,
      \<lparr>requests = [], attempts = [1], tagged = [1],
       linked = [(1, ascii ''https://www.notion.so/R2'')],
       progress = [changeHeadline, show_window, new_ItemProgress, setText 1 3,
                   setProgress 1 3],
       logged = []\<rparr>
      \<lparr>progress :=
         progress \<lparr>requests = [], attempts = [1], tagged = [1],
           linked = [(1, ascii ''https://www.notion.so/R2'')],
           progress = [changeHeadline, show_window, new_ItemProgress, setText 1 3,
                       setProgress 1 3],
           logged = []\<rparr> @
         [setText (Suc (length [item1])) (length ([item1] @ item2 # [item3]))]\<rparr>) =
   (Some (APIResponseError (ascii ''rate_limited'')),
    \<lparr>databaseID = ascii ''db'', databaseProperties = Some example_schema,
     sent = [Retrieve (ascii ''db''),
             Create (ascii ''db'') (mapItemProperties example_schema example_item),
             Update (ascii ''R9'')
               (mapItemProperties example_schema (stored_item (ascii ''R9'')))]\<rparr>,
    \<lparr>requests = [], attempts = [1, 2], tagged = [1],
     linked = [(1, ascii ''https://www.notion.so/R2'')],
     progress = [changeHeadline, show_window, new_ItemProgress, setText 1 3,
                 setProgress 1 3, setText 2 3],
     logged = []\<rparr>)"
  by (simp add: saveItemToNotion_def item2_def
      example_save_R9 [OF buildItemProperties_hit])

lemma run_batch:
  "run Z R [Enqueue [item1, item2, item3], Elapse 2000, TimerFires 1] initial_state =
     Some batch_state"
  by (simp add: engine_defs batch_state_def item1_def item2_def item3_def empty_log_def)

lemma reachable_batch: "reachable Z R batch_state"
  using reachable_run [OF reachable_initial run_batch] .

lemma settle_batch:
  "step example_zotero example_remote PassSettles batch_state =
     Some (the (step example_zotero example_remote PassSettles batch_state))"
  "passes batch_state = [[1, 2, 3]]" "history batch_state = empty_log"
  "queuedSync batch_state = None" "batches batch_state = [[1, 2, 3]]"
  by (simp_all add: batch_state_def)

text \<open>
  Claim C6. Let the batch resolve to the items \<open>pre @ item # post\<close>, let the items of
  \<open>pre\<close> be saved without error and let \<open>saveItemToNotion\<close> throw on \<open>item\<close>. Then
  the pass has called \<open>saveItemToNotion\<close> on the items of \<open>pre\<close> and on \<open>item\<close> and
  on nothing else; what was saved for the items of \<open>pre\<close> is kept; the error is logged
  once. When the pass settles, the engine adds no timeout and nothing to the queue: the
  queue is what the notifications left, and the only batch that can start is that queue.
\<close>

theorem abort_on_first_error:
  assumes "List.map_filter (Items_get Z) ids = pre @ item # post"
    and "getNotion Z (requests L) = Inr n"
    and "saveLoop Z R (length (pre @ item # post)) 0 pre
           (n, L\<lparr>progress := progress L @ [changeHeadline, show_window, new_ItemProgress]\<rparr>) =
         (None, n1, L1)"
    and "saveItemToNotion Z R item
           (n1, L1\<lparr>progress := progress L1 @
              [setText (Suc (length pre)) (length (pre @ item # post))]\<rparr>) =
         (Some e, n2, L2)"
  shows "attempts (saveItemsToNotion Z R ids L) =
      attempts L @ map item_id pre @ [item_id item] \<and>
    tagged L1 = tagged L @ map item_id pre \<and>
    (tagged (saveItemsToNotion Z R ids L) = tagged L1 \<or>
     tagged (saveItemsToNotion Z R ids L) = tagged L1 @ [item_id item]) \<and>
    linked (saveItemsToNotion Z R ids L) = linked L1 \<and>
    logged (saveItemsToNotion Z R ids L) = logged L @ [e] \<and>
    requests (saveItemsToNotion Z R ids L) = sent n2 \<and>
    (\<forall>s s'. reachable Z R s \<and> passes s = [ids] \<and> history s = L \<and>
        step Z R PassSettles s = Some s' \<longrightarrow>
        history s' = saveItemsToNotion Z R ids L \<and>
        timeouts s' = timeouts s \<and>
        (queuedSync s' = queuedSync s \<or> queuedSync s' = None) \<and>
        (batches s' = batches s \<or>
         (\<exists>q. queuedSync s = Some q \<and> batches s' = batches s @ [itemIDs q])) \<and>
        (queuedSync s = None \<longrightarrow>
           \<not> syncInProgress s' \<and> passes s' = [] \<and> batches s' = batches s))"
proof -
  let ?L0 = "L\<lparr>progress := progress L @ [changeHeadline, show_window, new_ItemProgress]\<rparr>"
  let ?len = "length (pre @ item # post)"
  have loop: "saveLoop Z R ?len 0 (pre @ item # post) (n, ?L0) = (Some e, n2, L2)"
    using saveLoop_abort [OF assms(3), of item e n2 L2 post] assms(4) by simp
  have pass: "saveItemsToNotion Z R ids L = catch_error e (L2\<lparr>requests := sent n2\<rparr>)"
    using assms(1,2) loop by (simp add: saveItemsToNotion_def Let_def)
  note pre = saveLoop_success [OF assms(3)]
  note one = saveItemToNotion_log [OF assms(4)] saveItemToNotion_failure [OF assms(4)]
  have a: "attempts (saveItemsToNotion Z R ids L) = attempts L @ map item_id pre @ [item_id item]"
    using pre one by (simp add: pass catch_error_def)
  have b: "tagged L1 = tagged L @ map item_id pre" using pre by simp
  have c: "tagged (saveItemsToNotion Z R ids L) = tagged L1 \<or>
     tagged (saveItemsToNotion Z R ids L) = tagged L1 @ [item_id item]"
    using one by (auto simp: pass catch_error_def)
  have d: "linked (saveItemsToNotion Z R ids L) = linked L1"
    using one by (simp add: pass catch_error_def)
  have e: "logged (saveItemsToNotion Z R ids L) = logged L @ [e]"
    using pre one by (simp add: pass catch_error_def)
  have f: "requests (saveItemsToNotion Z R ids L) = sent n2"
    by (simp add: pass catch_error_def)
  have g: "\<forall>s s'. reachable Z R s \<and> passes s = [ids] \<and> history s = L \<and>
        step Z R PassSettles s = Some s' \<longrightarrow>
        history s' = saveItemsToNotion Z R ids L \<and>
        timeouts s' = timeouts s \<and>
        (queuedSync s' = queuedSync s \<or> queuedSync s' = None) \<and>
        (batches s' = batches s \<or>
         (\<exists>q. queuedSync s = Some q \<and> batches s' = batches s @ [itemIDs q])) \<and>
        (queuedSync s = None \<longrightarrow>
           \<not> syncInProgress s' \<and> passes s' = [] \<and> batches s' = batches s)"
  proof (intro allI impI)
    fix s s'
    assume h: "reachable Z R s \<and> passes s = [ids] \<and> history s = L \<and>
        step Z R PassSettles s = Some s'"
    from h have s': "s' = performSync_resume
        (s\<lparr>passes := [], history := saveItemsToNotion Z R ids L\<rparr>)"
      by auto
    show "history s' = saveItemsToNotion Z R ids L \<and>
        timeouts s' = timeouts s \<and>
        (queuedSync s' = queuedSync s \<or> queuedSync s' = None) \<and>
        (batches s' = batches s \<or>
         (\<exists>q. queuedSync s = Some q \<and> batches s' = batches s @ [itemIDs q])) \<and>
        (queuedSync s = None \<longrightarrow>
           \<not> syncInProgress s' \<and> passes s' = [] \<and> batches s' = batches s)"
      by (auto simp: s' performSync_resume_def performSync_def split: option.splits)
  qed
  from a b c d e f g show ?thesis by blast
qed

theorem abort_on_first_error_witness:
  "List.map_filter (Items_get example_zotero) [1, 2, 3] = [item1] @ item2 # [item3] \<and>
   attempts (saveItemsToNotion example_zotero example_remote [1, 2, 3] empty_log) = [1, 2] \<and>
   linked (saveItemsToNotion example_zotero example_remote [1, 2, 3] empty_log) =
     [(1, ascii ''https://www.notion.so/R2'')] \<and>
   logged (saveItemsToNotion example_zotero example_remote [1, 2, 3] empty_log) =
     [APIResponseError (ascii ''rate_limited'')] \<and>
   requests (saveItemsToNotion example_zotero example_remote [1, 2, 3] empty_log) =
     [Retrieve (ascii ''db''),
      Create (ascii ''db'') (mapItemProperties example_schema example_item),
      Update (ascii ''R9'') (mapItemProperties example_schema (stored_item (ascii ''R9'')))] \<and>
   reachable example_zotero example_remote batch_state \<and>
   passes batch_state = [[1, 2, 3]] \<and> queuedSync batch_state = None \<and>
   attempts (history (the (step example_zotero example_remote PassSettles batch_state))) =
     [1, 2] \<and>
   queuedSync (the (step example_zotero example_remote PassSettles batch_state)) = None \<and>
   timeouts (the (step example_zotero example_remote PassSettles batch_state)) = [] \<and>
   \<not> syncInProgress (the (step example_zotero example_remote PassSettles batch_state)) \<and>
   passes (the (step example_zotero example_remote PassSettles batch_state)) = [] \<and>
   batches (the (step example_zotero example_remote PassSettles batch_state)) = [[1, 2, 3]]"
proof -
  let ?pass = "saveItemsToNotion example_zotero example_remote [1, 2, 3] empty_log"
  let ?s' = "the (step example_zotero example_remote PassSettles batch_state)"
  have n: "getNotion example_zotero (requests empty_log) = Inr (new_Notion (ascii ''db'') [])"
    by (simp add: example_host empty_log_def)
  note t = abort_on_first_error [OF example_host(1) n example_first_item example_second_item]
  from t have "attempts ?pass = attempts empty_log @ map item_id [item1] @ [item_id item2]"
    by blast
  then have a: "attempts ?pass = [1, 2]"
    by (simp add: empty_log_def item1_def item2_def)
  have l: "linked ?pass = [(1, ascii ''https://www.notion.so/R2'')]"
    using t [THEN conjunct2, THEN conjunct2, THEN conjunct2, THEN conjunct1] by simp
  from t have "logged ?pass = logged empty_log @ [APIResponseError (ascii ''rate_limited'')]"
    by blast
  then have g: "logged ?pass = [APIResponseError (ascii ''rate_limited'')]"
    by (simp add: empty_log_def)
  have r: "requests ?pass =
     [Retrieve (ascii ''db''),
      Create (ascii ''db'') (mapItemProperties example_schema example_item),
      Update (ascii ''R9'') (mapItemProperties example_schema (stored_item (ascii ''R9'')))]"
    using t [THEN conjunct2, THEN conjunct2, THEN conjunct2, THEN conjunct2, THEN conjunct2,
        THEN conjunct1] by simp
  from t reachable_batch [of example_zotero example_remote] settle_batch(1-4)
  have m: "history ?s' = ?pass \<and> timeouts ?s' = timeouts batch_state \<and>
      \<not> syncInProgress ?s' \<and> passes ?s' = [] \<and> batches ?s' = batches batch_state"
    by blast
  have b: "timeouts batch_state = []" by (simp add: batch_state_def)
  from m settle_batch(4) t reachable_batch [of example_zotero example_remote] settle_batch(1-3)
  have q: "queuedSync ?s' = None" by metis
  from example_host(1) a l g r m b q settle_batch(2,4,5)
    reachable_batch [of example_zotero example_remote]
  show ?thesis by simp
qed

section \<open>The schema cache across passes\<close>

lemma example_build_after:
  "buildItemProperties example_remote item (new_Notion (ascii ''db'') rs) =
     (Inr (mapItemProperties example_schema item),
      \<lparr>databaseID = ascii ''db'', databaseProperties = Some example_schema,
       sent = rs @ [Retrieve (ascii ''db'')]\<rparr>)"
  by (simp add: buildItemProperties_def getDatabaseProperties_def
      getDatabaseProperties_call_def new_Notion_def example_remote_def)

lemma example_pass_3:
  "requests (saveItemsToNotion example_zotero example_remote [3] L) =
     requests L @ [Retrieve (ascii ''db''),
       Update (ascii ''R5'') (mapItemProperties example_schema (stored_item (ascii ''R5'')))]"
  unfolding saveItemsToNotion_def example_host(2)
  by (simp add: example_host(3-5) saveItemToNotion_def item3_def
      example_save_R5 [OF example_build_after])

text \<open>
  The claim as stated fails in two ways. For callers that overlap: the field is set when
  the retrieval settles, not when it is sent, so a second call that starts while the first
  is suspended finds the field empty and sends its own request; both then settle with the
  schema. And for the process as a whole: every pass builds a new \<open>Notion\<close> object, whose
  field is empty, so two passes for item 3 send two retrieval requests.
\<close>

theorem getDatabaseProperties_overlap_counterexample:
  "getDatabaseProperties_call example_remote (new_Notion (ascii ''db'') []) =
     (Awaiting (Inr example_schema),
      \<lparr>databaseID = ascii ''db'', databaseProperties = None,
       sent = [Retrieve (ascii ''db'')]\<rparr>) \<and>
   getDatabaseProperties_call example_remote
      \<lparr>databaseID = ascii ''db'', databaseProperties = None,
       sent = [Retrieve (ascii ''db'')]\<rparr> =
     (Awaiting (Inr example_schema),
      \<lparr>databaseID = ascii ''db'', databaseProperties = None,
       sent = [Retrieve (ascii ''db''), Retrieve (ascii ''db'')]\<rparr>) \<and>
   getDatabaseProperties_resume (Awaiting (Inr example_schema))
      \<lparr>databaseID = ascii ''db'', databaseProperties = None,
       sent = [Retrieve (ascii ''db''), Retrieve (ascii ''db'')]\<rparr> =
     (Inr example_schema,
      \<lparr>databaseID = ascii ''db'', databaseProperties = Some example_schema,
       sent = [Retrieve (ascii ''db''), Retrieve (ascii ''db'')]\<rparr>) \<and>
   getDatabaseProperties_resume (Awaiting (Inr example_schema))
      \<lparr>databaseID = ascii ''db'', databaseProperties = Some example_schema,
       sent = [Retrieve (ascii ''db''), Retrieve (ascii ''db'')]\<rparr> =
     (Inr example_schema,
      \<lparr>databaseID = ascii ''db'', databaseProperties = Some example_schema,
       sent = [Retrieve (ascii ''db''), Retrieve (ascii ''db'')]\<rparr>) \<and>
   requests (saveItemsToNotion example_zotero example_remote [3]
      (saveItemsToNotion example_zotero example_remote [3] empty_log)) =
     [Retrieve (ascii ''db''),
      Update (ascii ''R5'') (mapItemProperties example_schema (stored_item (ascii ''R5''))),
      Retrieve (ascii ''db''),
      Update (ascii ''R5'') (mapItemProperties example_schema (stored_item (ascii ''R5'')))]"
proof -
  have two: "requests (saveItemsToNotion example_zotero example_remote [3]
      (saveItemsToNotion example_zotero example_remote [3] empty_log)) =
     [Retrieve (ascii ''db''),
      Update (ascii ''R5'') (mapItemProperties example_schema (stored_item (ascii ''R5''))),
      Retrieve (ascii ''db''),
      Update (ascii ''R5'') (mapItemProperties example_schema (stored_item (ascii ''R5'')))]"
    by (simp add: example_pass_3 empty_log_def)
  show ?thesis
    unfolding two
    by (simp add: getDatabaseProperties_call_def new_Notion_def example_remote_def)
qed

end
